theory Spec2Isabelle
  imports Main "HOL-Library.Word"
begin

text \<open>
  A model of \<^verbatim>\<open>src/index.ts\<close>, the decoder of Concordium contract schemas: the
  primitive readers \<^verbatim>\<open>deserialUint8\<close> and \<^verbatim>\<open>deserialUint32\<close>, the combinators
  \<^verbatim>\<open>deserialArrayFn\<close>, \<^verbatim>\<open>deserialMapFn\<close>, \<^verbatim>\<open>deserialOptionFn\<close>,
  \<^verbatim>\<open>deserialTupleFn\<close> and \<^verbatim>\<open>deserialString\<close>, and the grammar decoders
  \<^verbatim>\<open>deserialType\<close>, \<^verbatim>\<open>deserialFields\<close>, \<^verbatim>\<open>deserialContract\<close> and
  \<^verbatim>\<open>deserialModule\<close>.
\<close>

section \<open>The byte source\<close>

text \<open>
  The decoders read from a Node.js \<^verbatim>\<open>Readable\<close> in byte mode. Of the stream, the model
  keeps the state that \<^verbatim>\<open>read\<close> consults: the bytes of the internal buffer (the chunks
  pushed so far, concatenated), whether the end of the stream has been pushed, and the
  high-water mark. Of the underlying resource it keeps the deliveries still to come and
  how they arrive. A delivery is what the resource pushes on one occasion: some bytes
  (several chunks pushed on the same occasion are their concatenation, and there may be
  none) and whether the end of the stream is pushed with them. A \<open>synchronous\<close>
  resource makes its next delivery inside each call of \<^verbatim>\<open>_read\<close>; any other resource
  delivers later, from the event loop, so between two calls of the decoder and never
  during one. A resource with nothing \<open>pending\<close> pushes nothing. \<open>deliver\<close> is one
  delivery. The stream is idle and intact when a decoder is called: no \<^verbatim>\<open>_read\<close> is
  outstanding, and the stream is neither destroyed nor in error.
\<close>

type_synonym byte = "8 word"

record readable =
  buffer :: "byte list"
  pending :: "(byte list \<times> bool) list"
  ended :: bool
  synchronous :: bool
  highWaterMark :: nat

definition deliver :: "readable \<Rightarrow> readable" where
  "deliver s =
     (if ended s then s
      else case pending s of
        [] \<Rightarrow> s
      | (chunk, end_of_stream) # rest \<Rightarrow>
          s\<lparr>buffer := buffer s @ chunk, ended := end_of_stream, pending := rest\<rparr>)"

text \<open>
  \<^verbatim>\<open>computeNewHighWaterMark(n)\<close> is the least power of two that is at least \<open>n\<close> (for
  \<open>n\<close> up to 1 GiB; the decoders ask for 1 and for 4 bytes). \<^verbatim>\<open>howMuchToRead(n, state)\<close>
  is the number of bytes a \<^verbatim>\<open>read(n)\<close> can return from the buffer as it stands.
\<close>

fun pow2_atleast :: "nat \<Rightarrow> nat \<Rightarrow> nat \<Rightarrow> nat" where
  "pow2_atleast 0 p n = p"
| "pow2_atleast (Suc fuel) p n = (if n \<le> p then p else pow2_atleast fuel (2 * p) n)"

definition computeNewHighWaterMark :: "nat \<Rightarrow> nat" where
  "computeNewHighWaterMark n = pow2_atleast n 1 n"

definition howMuchToRead :: "nat \<Rightarrow> readable \<Rightarrow> nat" where
  "howMuchToRead n s =
     (if n = 0 \<or> (buffer s = [] \<and> ended s) then 0
      else if n \<le> length (buffer s) then n
      else if ended s then length (buffer s)
      else 0)"

text \<open>
  \<open>read n\<close> is \<^verbatim>\<open>Readable.prototype.read(n)\<close>, step by step: raise the high-water
  mark to the request; see how much the buffer can give; if that is nothing and the stream
  has ended, return \<^verbatim>\<open>null\<close>; otherwise call \<^verbatim>\<open>_read\<close> when the buffer is empty or
  would be left below the high-water mark and the stream has not ended; if \<^verbatim>\<open>_read\<close>
  pushed during the call, see again how much the buffer can give; return that many bytes
  from the front of the buffer, or \<^verbatim>\<open>null\<close> when it is none. So \<^verbatim>\<open>read(n)\<close> returns
  exactly \<open>n\<close> bytes when the buffer has them (after at most one delivery of a
  synchronous resource), all the remaining bytes (fewer than \<open>n\<close>) when the stream has
  ended, and \<^verbatim>\<open>null\<close> otherwise. (The flag \<^verbatim>\<open>needReadable\<close>, which also makes
  \<^verbatim>\<open>read\<close> call \<^verbatim>\<open>_read\<close>, is left out: it is only ever set while the buffer is
  below the high-water mark, where \<^verbatim>\<open>_read\<close> is called anyway.) \<open>consume n s\<close> is the
  stream as \<open>read n\<close> leaves it.
\<close>

definition read :: "nat \<Rightarrow> readable \<Rightarrow> byte list option \<times> readable" where
  "read n source =
     (let s = (if highWaterMark source < n
               then source\<lparr>highWaterMark := computeNewHighWaterMark n\<rparr>
               else source);
          n1 = howMuchToRead n s
      in if n1 = 0 \<and> ended s then (None, s)
         else
           let doRead = (buffer s = [] \<or> length (buffer s) - n1 < highWaterMark s)
                          \<and> \<not> ended s;
               pushed = doRead \<and> synchronous s;
               s' = (if pushed then deliver s else s);
               n2 = (if pushed then howMuchToRead n s' else n1)
           in if 0 < n2
              then (Some (take n2 (buffer s')), s'\<lparr>buffer := drop n2 (buffer s')\<rparr>)
              else (None, s'))"

definition consume :: "nat \<Rightarrow> readable \<Rightarrow> readable" where
  "consume n s = snd (read n s)"

text \<open>
  Failures. \<open>NullDereference\<close> is the \<^verbatim>\<open>TypeError\<close> of calling a method on the
  \<^verbatim>\<open>null\<close> that \<^verbatim>\<open>read\<close> returned; \<open>BufferOutOfBounds\<close> is the \<^verbatim>\<open>RangeError\<close>
  of \<^verbatim>\<open>readUInt8\<close>/\<^verbatim>\<open>readUInt32LE\<close> on a buffer that is too short; the other three are
  the \<^verbatim>\<open>Error\<close>s the decoder throws itself, with the offending tag.
\<close>

datatype error =
    NullDereference
  | BufferOutOfBounds
  | UnsupportedTypeTag nat
  | UnsupportedFieldsTag nat
  | UnsupportedOptionTag nat

definition readUInt8 :: "byte list \<Rightarrow> nat \<Rightarrow> error + nat" where
  "readUInt8 buf offset =
     (if offset < length buf then Inr (unat (buf ! offset)) else Inl BufferOutOfBounds)"

definition readUInt32LE :: "byte list \<Rightarrow> nat \<Rightarrow> error + nat" where
  "readUInt32LE buf offset =
     (if offset + 4 \<le> length buf
      then Inr (unat (buf ! offset) + unat (buf ! (offset + 1)) * 2 ^ 8
                + unat (buf ! (offset + 2)) * 2 ^ 16 + unat (buf ! (offset + 3)) * 2 ^ 24)
      else Inl BufferOutOfBounds)"

text \<open>
  A \<^verbatim>\<open>Deserial<T>\<close> takes the source and either returns a value, throws, or does not
  return (\<open>None\<close>); the source as the call left it is part of the result in both of the
  first two cases. \<open>bindD\<close> sequences two steps: a failure of the first is the failure of
  the whole, and the second runs on the source the first one left.
\<close>

type_synonym 'a Deserial = "readable \<Rightarrow> ((error + 'a) \<times> readable) option"

definition returnD :: "'a \<Rightarrow> 'a Deserial" where
  "returnD x source = Some (Inr x, source)"

definition throwD :: "error \<Rightarrow> 'a Deserial" where
  "throwD e source = Some (Inl e, source)"

definition bindD :: "'a Deserial \<Rightarrow> ('a \<Rightarrow> 'b Deserial) \<Rightarrow> 'b Deserial" where
  "bindD m k source =
     Option.bind (m source)
       (\<lambda>(r, source'). case r of Inl e \<Rightarrow> Some (Inl e, source') | Inr x \<Rightarrow> k x source')"

definition deserialUint8 :: "nat Deserial" where
  "deserialUint8 source =
     (case read 1 source of
        (None, source') \<Rightarrow> Some (Inl NullDereference, source')
      | (Some buf, source') \<Rightarrow> Some (readUInt8 buf 0, source'))"

definition deserialUint32 :: "nat Deserial" where
  "deserialUint32 source =
     (case read 4 source of
        (None, source') \<Rightarrow> Some (Inl NullDereference, source')
      | (Some buf, source') \<Rightarrow> Some (readUInt32LE buf 0, source'))"

text \<open>
  The loop of \<^verbatim>\<open>deserialArrayFn\<close>:
  \<^verbatim>\<open>for (let i = 0; i < len; i++) { arr.push(deserial(source)); }\<close>.
\<close>

function arrayLoop :: "'a Deserial \<Rightarrow> nat \<Rightarrow> nat \<Rightarrow> 'a list \<Rightarrow> 'a list Deserial" where
  "arrayLoop deserial len i arr source =
     (if i < len
      then bindD deserial (\<lambda>x. arrayLoop deserial len (Suc i) (arr @ [x])) source
      else returnD arr source)"
  by pat_completeness auto
termination
  by (relation "measure (\<lambda>(deserial, len, i, arr, source). len - i)") auto

declare arrayLoop.simps [simp del]

definition deserialArrayFn :: "'a Deserial \<Rightarrow> 'a list Deserial" where
  "deserialArrayFn deserial source =
     bindD deserialUint32 (\<lambda>len. arrayLoop deserial len 0 []) source"

text \<open>
  A JavaScript string is modelled by the list of its code points. A
  \<^verbatim>\<open>Record<string, V>\<close> is modelled by the map of its own properties. It is created as
  the plain object \<^verbatim>\<open>{}\<close> and filled by \<^verbatim>\<open>obj[k] = v\<close>: for every key but
  \<^verbatim>\<open>__proto__\<close> the assignment creates or overwrites the own property \<open>k\<close>; for
  \<^verbatim>\<open>__proto__\<close> it goes to the accessor inherited from \<^verbatim>\<open>Object.prototype\<close>, which
  changes the prototype of the object (or does nothing, for a primitive value) and creates
  no own property.
\<close>

type_synonym jsstring = "nat list"

type_synonym 'v jsrecord = "jsstring \<rightharpoonup> 'v"

definition proto_key :: jsstring where
  "proto_key = [95, 95, 112, 114, 111, 116, 111, 95, 95]"

definition assign :: "'v jsrecord \<Rightarrow> jsstring \<Rightarrow> 'v \<Rightarrow> 'v jsrecord" where
  "assign obj k v = (if k = proto_key then obj else obj(k \<mapsto> v))"

function mapLoop ::
  "jsstring Deserial \<Rightarrow> 'v Deserial \<Rightarrow> nat \<Rightarrow> nat \<Rightarrow> 'v jsrecord \<Rightarrow> 'v jsrecord Deserial" where
  "mapLoop deserialKey deserialValue len i obj source =
     (if i < len
      then bindD deserialKey (\<lambda>k.
             bindD deserialValue (\<lambda>v.
               mapLoop deserialKey deserialValue len (Suc i) (assign obj k v))) source
      else returnD obj source)"
  by pat_completeness auto
termination
  by (relation "measure (\<lambda>(deserialKey, deserialValue, len, i, obj, source). len - i)") auto

declare mapLoop.simps [simp del]

definition deserialMapFn :: "jsstring Deserial \<Rightarrow> 'v Deserial \<Rightarrow> 'v jsrecord Deserial" where
  "deserialMapFn deserialKey deserialValue source =
     bindD deserialUint32 (\<lambda>len. mapLoop deserialKey deserialValue len 0 Map.empty) source"

text \<open>
  \<^verbatim>\<open>T | null\<close> is modelled by \<open>'a option\<close>, the value that \<^verbatim>\<open>deserial\<close> returns
  for the tag \<open>Some\<close> by \<open>Some x\<close>.
\<close>

abbreviation (input) OptionTag_None :: nat where "OptionTag_None \<equiv> 0"
abbreviation (input) OptionTag_Some :: nat where "OptionTag_Some \<equiv> 1"

definition deserialOptionFn :: "'a Deserial \<Rightarrow> 'a option Deserial" where
  "deserialOptionFn deserial source =
     bindD deserialUint8 (\<lambda>tag source.
       if tag = OptionTag_None then returnD None source
       else if tag = OptionTag_Some then bindD deserial (\<lambda>x. returnD (Some x)) source
       else throwD (UnsupportedOptionTag tag) source) source"

definition deserialTupleFn :: "'l Deserial \<Rightarrow> 'r Deserial \<Rightarrow> ('l \<times> 'r) Deserial" where
  "deserialTupleFn deserialLeft deserialRight source =
     bindD deserialLeft (\<lambda>left.
       bindD deserialRight (\<lambda>right. returnD (left, right))) source"


text \<open>
  \<^verbatim>\<open>new TextDecoder().decode(bytes)\<close>: the UTF-8 decoder of the Encoding Standard in
  its default mode, which replaces each malformed sequence by U+FFFD and drops one leading
  byte order mark. \<open>utf8_lead\<close> handles a byte when no sequence is open; \<open>utf8_run\<close>
  is the decoder loop, which handles a byte that cannot continue the open sequence again
  as a lead byte, after the replacement character.
\<close>

record utf8_state =
  code_point :: nat
  bytes_seen :: nat
  bytes_needed :: nat
  lower_boundary :: nat
  upper_boundary :: nat

definition utf8_initial :: utf8_state where
  "utf8_initial =
     \<lparr>code_point = 0, bytes_seen = 0, bytes_needed = 0,
      lower_boundary = 0x80, upper_boundary = 0xBF\<rparr>"

definition utf8_lead :: "nat \<Rightarrow> nat list \<times> utf8_state" where
  "utf8_lead b =
     (if b \<le> 0x7F then ([b], utf8_initial)
      else if 0xC2 \<le> b \<and> b \<le> 0xDF
        then ([], utf8_initial\<lparr>bytes_needed := 1, code_point := b mod 0x20\<rparr>)
      else if 0xE0 \<le> b \<and> b \<le> 0xEF
        then ([], utf8_initial\<lparr>
                lower_boundary := (if b = 0xE0 then 0xA0 else 0x80),
                upper_boundary := (if b = 0xED then 0x9F else 0xBF),
                bytes_needed := 2, code_point := b mod 0x10\<rparr>)
      else if 0xF0 \<le> b \<and> b \<le> 0xF4
        then ([], utf8_initial\<lparr>
                lower_boundary := (if b = 0xF0 then 0x90 else 0x80),
                upper_boundary := (if b = 0xF4 then 0x8F else 0xBF),
                bytes_needed := 3, code_point := b mod 0x08\<rparr>)
      else ([0xFFFD], utf8_initial))"

fun utf8_run :: "utf8_state \<Rightarrow> nat list \<Rightarrow> nat list" where
  "utf8_run st [] = (if bytes_needed st \<noteq> 0 then [0xFFFD] else [])"
| "utf8_run st (b # bs) =
     (if bytes_needed st = 0
        then (case utf8_lead b of (out, st') \<Rightarrow> out @ utf8_run st' bs)
      else if b < lower_boundary st \<or> upper_boundary st < b
        then (case utf8_lead b of (out, st') \<Rightarrow> 0xFFFD # out @ utf8_run st' bs)
      else if Suc (bytes_seen st) = bytes_needed st
        then (code_point st * 0x40 + b mod 0x40) # utf8_run utf8_initial bs
      else utf8_run
             (st\<lparr>lower_boundary := 0x80, upper_boundary := 0xBF,
                 code_point := code_point st * 0x40 + b mod 0x40,
                 bytes_seen := Suc (bytes_seen st)\<rparr>) bs)"

definition TextDecoder_decode :: "byte list \<Rightarrow> jsstring" where
  "TextDecoder_decode uint8Array =
     (case utf8_run utf8_initial (map unat uint8Array) of
        [] \<Rightarrow> []
      | c # cs \<Rightarrow> if c = 0xFEFF then cs else c # cs)"

definition Uint8Array_from :: "nat list \<Rightarrow> byte list" where
  "Uint8Array_from bytes = map of_nat bytes"

definition deserialString :: "jsstring Deserial" where
  "deserialString source =
     bindD (deserialArrayFn deserialUint8) (\<lambda>bytes.
       returnD (TextDecoder_decode (Uint8Array_from bytes))) source"

text \<open>
  The enums \<^verbatim>\<open>SizeLength\<close>, \<^verbatim>\<open>TypeTag\<close> and \<^verbatim>\<open>FieldsTag\<close> are numbers at run
  time, counted from 0 in the order of declaration. A decoded \<^verbatim>\<open>Type\<close> or
  \<^verbatim>\<open>Fields\<close> object holds the tag number it was decoded from, and a \<open>sizeLength\<close>
  holds the number \<^verbatim>\<open>deserialUint8\<close> returned.
\<close>

abbreviation (input) SizeLength_U8 :: nat where "SizeLength_U8 \<equiv> 0"
abbreviation (input) SizeLength_U16 :: nat where "SizeLength_U16 \<equiv> 1"
abbreviation (input) SizeLength_U32 :: nat where "SizeLength_U32 \<equiv> 2"
abbreviation (input) SizeLength_U64 :: nat where "SizeLength_U64 \<equiv> 3"

abbreviation (input) TypeTag_Unit :: nat where "TypeTag_Unit \<equiv> 0"
abbreviation (input) TypeTag_Bool :: nat where "TypeTag_Bool \<equiv> 1"
abbreviation (input) TypeTag_U8 :: nat where "TypeTag_U8 \<equiv> 2"
abbreviation (input) TypeTag_U16 :: nat where "TypeTag_U16 \<equiv> 3"
abbreviation (input) TypeTag_U32 :: nat where "TypeTag_U32 \<equiv> 4"
abbreviation (input) TypeTag_U64 :: nat where "TypeTag_U64 \<equiv> 5"
abbreviation (input) TypeTag_I8 :: nat where "TypeTag_I8 \<equiv> 6"
abbreviation (input) TypeTag_I16 :: nat where "TypeTag_I16 \<equiv> 7"
abbreviation (input) TypeTag_I32 :: nat where "TypeTag_I32 \<equiv> 8"
abbreviation (input) TypeTag_I64 :: nat where "TypeTag_I64 \<equiv> 9"
abbreviation (input) TypeTag_Amount :: nat where "TypeTag_Amount \<equiv> 10"
abbreviation (input) TypeTag_AccountAddress :: nat where "TypeTag_AccountAddress \<equiv> 11"
abbreviation (input) TypeTag_ContractAddress :: nat where "TypeTag_ContractAddress \<equiv> 12"
abbreviation (input) TypeTag_Timestamp :: nat where "TypeTag_Timestamp \<equiv> 13"
abbreviation (input) TypeTag_Duration :: nat where "TypeTag_Duration \<equiv> 14"
abbreviation (input) TypeTag_Pair :: nat where "TypeTag_Pair \<equiv> 15"
abbreviation (input) TypeTag_List :: nat where "TypeTag_List \<equiv> 16"
abbreviation (input) TypeTag_Set :: nat where "TypeTag_Set \<equiv> 17"
abbreviation (input) TypeTag_Map :: nat where "TypeTag_Map \<equiv> 18"
abbreviation (input) TypeTag_Array :: nat where "TypeTag_Array \<equiv> 19"
abbreviation (input) TypeTag_Struct :: nat where "TypeTag_Struct \<equiv> 20"
abbreviation (input) TypeTag_Enum :: nat where "TypeTag_Enum \<equiv> 21"
abbreviation (input) TypeTag_String :: nat where "TypeTag_String \<equiv> 22"
abbreviation (input) TypeTag_U128 :: nat where "TypeTag_U128 \<equiv> 23"
abbreviation (input) TypeTag_I128 :: nat where "TypeTag_I128 \<equiv> 24"
abbreviation (input) TypeTag_ContractName :: nat where "TypeTag_ContractName \<equiv> 25"
abbreviation (input) TypeTag_ReceiveName :: nat where "TypeTag_ReceiveName \<equiv> 26"

abbreviation (input) FieldsTag_Named :: nat where "FieldsTag_Named \<equiv> 0"
abbreviation (input) FieldsTag_Unnamed :: nat where "FieldsTag_Unnamed \<equiv> 1"
abbreviation (input) FieldsTag_None :: nat where "FieldsTag_None \<equiv> 2"

datatype Type =
    Type_Scalar (typeTag: nat)
  | Type_Pair (typeTag: nat) (ofLeft: Type) (ofRight: Type)
  | Type_Collection (typeTag: nat) (sizeLength: nat) (of_elem: Type)
  | Type_Map (typeTag: nat) (sizeLength: nat) (ofKeys: Type) (ofValues: Type)
  | Type_Array (typeTag: nat) (size_elems: nat) (of_elem: Type)
  | Type_Struct (typeTag: nat) (fields: Fields)
  | Type_Enum (typeTag: nat) (variants: "(jsstring \<times> Fields) list")
  | Type_Text (typeTag: nat) (sizeLength: nat)
and Fields =
    Fields_Named (fieldsTag: nat) (named_contents: "(jsstring \<times> Type) list")
  | Fields_Unnamed (fieldsTag: nat) (unnamed_contents: "Type list")
  | Fields_None (fieldsTag: nat)

text \<open>
  \<^verbatim>\<open>deserialType\<close> and \<^verbatim>\<open>deserialFields\<close> call each other. \<open>deserialFields_of\<close>
  is the body of \<^verbatim>\<open>deserialFields\<close> with the decoder of types as a parameter;
  \<open>deserialType\<close> is then defined by its own recursion alone, as a partial function (the
  monotonicity lemmas below are what that definition needs of the combinators), and
  \<open>deserialFields\<close> is \<open>deserialFields_of deserialType\<close>.
\<close>

definition deserialFields_of :: "Type Deserial \<Rightarrow> Fields Deserial" where
  "deserialFields_of deserialType source =
     bindD deserialUint8 (\<lambda>tag source.
       if tag = FieldsTag_Named then
         bindD (deserialArrayFn (deserialTupleFn deserialString deserialType)) (\<lambda>contents.
           returnD (Fields_Named tag contents)) source
       else if tag = FieldsTag_Unnamed then
         bindD (deserialArrayFn deserialType) (\<lambda>contents.
           returnD (Fields_Unnamed tag contents)) source
       else if tag = FieldsTag_None then returnD (Fields_None tag) source
       else throwD (UnsupportedFieldsTag tag) source) source"



lemma bindD_mono [partial_function_mono]:
  assumes "\<And>s. mono_option (\<lambda>f. B f s)"
    and "\<And>x s. mono_option (\<lambda>f. C f x s)"
  shows "mono_option (\<lambda>f. bindD (\<lambda>s. B f s) (\<lambda>x s. C f x s) source)"
  unfolding bindD_def
proof (rule bind_mono)
  show "mono_option (\<lambda>f. B f source)" by (rule assms(1))
next
  fix y :: "(error + 'c) \<times> readable"
  obtain r s' where y: "y = (r, s')" by (cases y)
  show "mono_option (\<lambda>f. case y of (r, source') \<Rightarrow>
          (case r of Inl e \<Rightarrow> Some (Inl e, source') | Inr x \<Rightarrow> C f x source'))"
    unfolding y by (cases r) (simp_all add: assms(2) option.const_mono)
qed

lemma arrayLoop_mono [partial_function_mono]:
  assumes "\<And>s. mono_option (\<lambda>f. D f s)"
  shows "mono_option (\<lambda>f. arrayLoop (\<lambda>s. D f s) len i arr source)"
proof (induction "len - i" arbitrary: i arr source)
  case 0
  then have "\<not> i < len" by simp
  then have "(\<lambda>f. arrayLoop (\<lambda>s. D f s) len i arr source) = (\<lambda>f. returnD arr source)"
    by (simp add: arrayLoop.simps)
  then show ?case by (simp add: option.const_mono)
next
  case (Suc n)
  then have lt: "i < len" by simp
  have step: "(\<lambda>f. arrayLoop (\<lambda>s. D f s) len i arr source) =
      (\<lambda>f. bindD (\<lambda>s. D f s) (\<lambda>x s. arrayLoop (\<lambda>s. D f s) len (Suc i) (arr @ [x]) s) source)"
    using lt by (subst arrayLoop.simps) simp
  show ?case
    unfolding step
  proof (rule bindD_mono)
    show "\<And>s. mono_option (\<lambda>f. D f s)" by (rule assms)
  next
    fix x s
    have "n = len - Suc i" using Suc.hyps(2) by simp
    then show "mono_option (\<lambda>f. arrayLoop (\<lambda>s. D f s) len (Suc i) (arr @ [x]) s)"
      by (rule Suc.hyps(1))
  qed
qed


lemma mapLoop_mono [partial_function_mono]:
  assumes "\<And>s. mono_option (\<lambda>f. K f s)" and "\<And>s. mono_option (\<lambda>f. V f s)"
  shows "mono_option (\<lambda>f. mapLoop (\<lambda>s. K f s) (\<lambda>s. V f s) len i obj source)"
proof (induction "len - i" arbitrary: i obj source)
  case 0
  then have "\<not> i < len" by simp
  then have "(\<lambda>f. mapLoop (\<lambda>s. K f s) (\<lambda>s. V f s) len i obj source) = (\<lambda>f. returnD obj source)"
    by (simp add: mapLoop.simps)
  then show ?case by (simp add: option.const_mono)
next
  case (Suc n)
  then have lt: "i < len" by simp
  have step: "(\<lambda>f. mapLoop (\<lambda>s. K f s) (\<lambda>s. V f s) len i obj source) =
      (\<lambda>f. bindD (\<lambda>s. K f s) (\<lambda>k s. bindD (\<lambda>s. V f s)
              (\<lambda>v s. mapLoop (\<lambda>s. K f s) (\<lambda>s. V f s) len (Suc i) (assign obj k v) s) s) source)"
    using lt by (subst mapLoop.simps) simp
  have n: "n = len - Suc i" using Suc.hyps(2) by simp
  show ?case
    unfolding step
    by (intro bindD_mono assms Suc.hyps(1) n)
qed

lemma deserialArrayFn_mono [partial_function_mono]:
  assumes "\<And>s. mono_option (\<lambda>f. D f s)"
  shows "mono_option (\<lambda>f. deserialArrayFn (\<lambda>s. D f s) source)"
  unfolding deserialArrayFn_def
  by (intro bindD_mono arrayLoop_mono assms option.const_mono)

lemma deserialMapFn_mono [partial_function_mono]:
  assumes "\<And>s. mono_option (\<lambda>f. K f s)" and "\<And>s. mono_option (\<lambda>f. V f s)"
  shows "mono_option (\<lambda>f. deserialMapFn (\<lambda>s. K f s) (\<lambda>s. V f s) source)"
  unfolding deserialMapFn_def
  by (intro bindD_mono mapLoop_mono assms option.const_mono)

lemma deserialTupleFn_mono [partial_function_mono]:
  assumes "\<And>s. mono_option (\<lambda>f. L f s)" and "\<And>s. mono_option (\<lambda>f. R f s)"
  shows "mono_option (\<lambda>f. deserialTupleFn (\<lambda>s. L f s) (\<lambda>s. R f s) source)"
  unfolding deserialTupleFn_def
  by (intro bindD_mono assms option.const_mono)

lemma deserialOptionFn_mono [partial_function_mono]:
  assumes "\<And>s. mono_option (\<lambda>f. D f s)"
  shows "mono_option (\<lambda>f. deserialOptionFn (\<lambda>s. D f s) source)"
  unfolding deserialOptionFn_def
  by (intro bindD_mono if_mono assms option.const_mono)

lemma deserialFields_of_mono [partial_function_mono]:
  assumes "\<And>s. mono_option (\<lambda>f. D f s)"
  shows "mono_option (\<lambda>f. deserialFields_of (\<lambda>s. D f s) source)"
  unfolding deserialFields_of_def
  by (intro bindD_mono if_mono deserialArrayFn_mono deserialTupleFn_mono assms option.const_mono)

partial_function (option) deserialType :: "Type Deserial" where
  "deserialType source =
     bindD deserialUint8 (\<lambda>tag source.
       if tag = TypeTag_Unit \<or> tag = TypeTag_Bool \<or> tag = TypeTag_U8 \<or> tag = TypeTag_U16
          \<or> tag = TypeTag_U32 \<or> tag = TypeTag_U64 \<or> tag = TypeTag_U128 \<or> tag = TypeTag_I8
          \<or> tag = TypeTag_I16 \<or> tag = TypeTag_I32 \<or> tag = TypeTag_I64 \<or> tag = TypeTag_I128
          \<or> tag = TypeTag_Amount \<or> tag = TypeTag_AccountAddress
          \<or> tag = TypeTag_ContractAddress \<or> tag = TypeTag_Timestamp
          \<or> tag = TypeTag_Duration
       then returnD (Type_Scalar tag) source
       else if tag = TypeTag_Pair then
         bindD deserialType (\<lambda>ofLeft.
           bindD deserialType (\<lambda>ofRight.
             returnD (Type_Pair tag ofLeft ofRight))) source
       else if tag = TypeTag_List \<or> tag = TypeTag_Set then
         bindD deserialUint8 (\<lambda>sizeLength.
           bindD deserialType (\<lambda>of_elem.
             returnD (Type_Collection tag sizeLength of_elem))) source
       else if tag = TypeTag_Map then
         bindD deserialUint8 (\<lambda>sizeLength.
           bindD deserialType (\<lambda>ofKeys.
             bindD deserialType (\<lambda>ofValues.
               returnD (Type_Map tag sizeLength ofKeys ofValues)))) source
       else if tag = TypeTag_Array then
         bindD deserialUint32 (\<lambda>size_elems.
           bindD deserialType (\<lambda>of_elem.
             returnD (Type_Array tag size_elems of_elem))) source
       else if tag = TypeTag_Struct then
         bindD (deserialFields_of deserialType) (\<lambda>fields.
           returnD (Type_Struct tag fields)) source
       else if tag = TypeTag_Enum then
         bindD (deserialArrayFn (deserialTupleFn deserialString (deserialFields_of deserialType)))
           (\<lambda>variants. returnD (Type_Enum tag variants)) source
       else if tag = TypeTag_String \<or> tag = TypeTag_ContractName \<or> tag = TypeTag_ReceiveName then
         bindD deserialUint8 (\<lambda>sizeLength.
           returnD (Type_Text tag sizeLength)) source
       else throwD (UnsupportedTypeTag tag) source) source"


record Contract =
  state :: "Type option"
  init :: "Type option"
  receive :: "Type jsrecord"

definition deserialContract :: "Contract Deserial" where
  "deserialContract source =
     bindD (deserialOptionFn deserialType) (\<lambda>state.
       bindD (deserialOptionFn deserialType) (\<lambda>init.
         bindD (deserialMapFn deserialString deserialType) (\<lambda>receive.
           returnD \<lparr>state = state, init = init, receive = receive\<rparr>))) source"

type_synonym Module = "Contract jsrecord"

definition deserialModule :: "Module Deserial" where
  "deserialModule source = deserialMapFn deserialString deserialContract source"

section \<open>Definitions used to state the properties\<close>

text \<open>
  \<open>unread s\<close> is what is left of the stream: the bytes no \<open>read\<close> has returned yet,
  buffered or still to be delivered. \<open>raise_hwm\<close> and \<open>refill\<close> name the first steps of
  \<open>read\<close>: raising the high-water mark, and the push of a synchronous resource when
  \<^verbatim>\<open>_read\<close> is called. \<open>source_of sync chunks\<close> is a fresh stream whose resource will
  deliver the given chunks, one at a time; \<open>closed_source bs\<close> is a stream that has ended with the bytes
  \<open>bs\<close> buffered. Both have the default high-water mark of 16 KiB.

  \<open>spec_invoke_times d n\<close> runs \<open>d\<close> exactly \<open>n\<close> times in order, each run on the
  source the previous one left, and returns the \<open>n\<close> results in that order.
  \<open>assign_all\<close> performs the assignments of a list of pairs in order.
  \<open>returns_upto n d\<close>: on every source with at most \<open>n\<close> unread bytes \<open>d\<close> returns,
  leaves no more bytes unread than it found, and takes no delivery from a resource that is
  not synchronous. \<open>malformed_tag\<close> singles out the three unsupported-tag failures.

  \<open>fails_when_cut_short d\<close>: take any stream that has ended and any bytes \<open>bs\<close> and
  \<open>ext\<close>. If \<open>d\<close>, given \<open>bs\<close> followed by \<open>ext\<close>, reads into \<open>ext\<close> (it leaves fewer
  bytes than \<open>ext\<close> has), then \<open>d\<close>, given \<open>bs\<close> alone, fails; the failure is a null
  dereference or an out-of-bounds read, and the buffer is exhausted. \<open>cut_local n d\<close> is
  the invariant behind it, for inputs of at most \<open>n\<close> bytes: a run that stays inside
  \<open>bs\<close> is the same run with and without \<open>ext\<close>.
\<close>

definition unread :: "readable \<Rightarrow> byte list" where
  "unread s = buffer s @ concat (map fst (pending s))"

definition raise_hwm :: "nat \<Rightarrow> readable \<Rightarrow> readable" where
  "raise_hwm n s =
     (if highWaterMark s < n then s\<lparr>highWaterMark := computeNewHighWaterMark n\<rparr> else s)"

definition refill :: "nat \<Rightarrow> readable \<Rightarrow> readable" where
  "refill n s =
     (let t = raise_hwm n s in
      if \<not> ended t \<and> synchronous t
         \<and> (buffer t = [] \<or> length (buffer t) - howMuchToRead n t < highWaterMark t)
      then deliver t else t)"

definition source_of :: "bool \<Rightarrow> byte list list \<Rightarrow> readable" where
  "source_of sync chunks =
     \<lparr>buffer = [], pending = map (\<lambda>chunk. (chunk, False)) chunks, ended = False,
      synchronous = sync,
      highWaterMark = 16384\<rparr>"

definition closed_source :: "byte list \<Rightarrow> readable" where
  "closed_source bs =
     \<lparr>buffer = bs, pending = [], ended = True, synchronous = False, highWaterMark = 16384\<rparr>"

fun spec_invoke_times :: "'a Deserial \<Rightarrow> nat \<Rightarrow> 'a list Deserial" where
  "spec_invoke_times d 0 s = returnD [] s"
| "spec_invoke_times d (Suc n) s =
     bindD d (\<lambda>x. bindD (spec_invoke_times d n) (\<lambda>xs. returnD (x # xs))) s"

fun assign_all :: "'v jsrecord \<Rightarrow> (jsstring \<times> 'v) list \<Rightarrow> 'v jsrecord" where
  "assign_all obj [] = obj"
| "assign_all obj ((k, v) # kvs) = assign_all (assign obj k v) kvs"

definition returns_upto :: "nat \<Rightarrow> 'a Deserial \<Rightarrow> bool" where
  "returns_upto n d \<longleftrightarrow>
     (\<forall>s. length (unread s) \<le> n \<longrightarrow>
        (\<exists>r s'. d s = Some (r, s') \<and> length (unread s') \<le> length (unread s)
           \<and> synchronous s' = synchronous s
           \<and> (synchronous s \<or> pending s' = pending s)))"



definition cut_local :: "nat \<Rightarrow> 'a Deserial \<Rightarrow> bool" where
  "cut_local n d \<longleftrightarrow>
     (\<forall>s bs ext r s'.
        ended s \<and> length (bs @ ext) \<le> n \<and> d (s\<lparr>buffer := bs @ ext\<rparr>) = Some (r, s') \<longrightarrow>
        ended s' \<and> length (buffer s') \<le> length (bs @ ext)
        \<and> ((\<exists>rest. buffer s' = rest @ ext
               \<and> d (s\<lparr>buffer := bs\<rparr>) = Some (r, s'\<lparr>buffer := rest\<rparr>))
           \<or> (length (buffer s') < length ext
               \<and> (\<exists>e t. d (s\<lparr>buffer := bs\<rparr>) = Some (Inl e, t)
                     \<and> (e = NullDereference \<or> e = BufferOutOfBounds) \<and> buffer t = []))))"

section \<open>Basic facts\<close>

lemma pow2_atleast_ge: "n \<le> p * 2 ^ fuel \<Longrightarrow> n \<le> pow2_atleast fuel p n"
  by (induction fuel arbitrary: p) (auto simp add: mult.assoc)

lemma computeNewHighWaterMark_ge: "n \<le> computeNewHighWaterMark n"
  unfolding computeNewHighWaterMark_def
  by (rule pow2_atleast_ge) (simp add: less_imp_le [OF less_exp])

lemma computeNewHighWaterMark_1: "computeNewHighWaterMark 1 = 1"
  by (simp add: computeNewHighWaterMark_def)

lemma computeNewHighWaterMark_4: "computeNewHighWaterMark 4 = 4"
  by code_simp

lemma read_refill:
  "read n s =
     (let t = refill n s; k = howMuchToRead n t in
      if 0 < k then (Some (take k (buffer t)), t\<lparr>buffer := drop k (buffer t)\<rparr>) else (None, t))"
proof -
  define t where "t = raise_hwm n s"
  have t: "(if highWaterMark s < n then s\<lparr>highWaterMark := computeNewHighWaterMark n\<rparr> else s) = t"
    by (simp add: t_def raise_hwm_def)
  show ?thesis
    unfolding read_def refill_def t t_def [symmetric]
    by (cases "ended t") (auto simp add: Let_def)
qed

lemma raise_hwm_simps [simp]:
  "buffer (raise_hwm n s) = buffer s"
  "pending (raise_hwm n s) = pending s"
  "ended (raise_hwm n s) = ended s"
  "synchronous (raise_hwm n s) = synchronous s"
  "n \<le> highWaterMark (raise_hwm n s)"
  by (simp_all add: raise_hwm_def computeNewHighWaterMark_ge)

lemma refill_ended: "ended s \<Longrightarrow> refill n s = raise_hwm n s"
  by (simp add: refill_def Let_def)

lemma refill_asynchronous: "\<not> synchronous s \<Longrightarrow> refill n s = raise_hwm n s"
  by (simp add: refill_def Let_def)

lemma refill_buffer: "\<exists>extra. buffer (refill n s) = buffer s @ extra"
  by (auto simp add: refill_def Let_def deliver_def split: list.splits prod.splits)

lemma refill_unread [simp]: "unread (refill n s) = unread s"
  by (auto simp add: refill_def Let_def deliver_def unread_def split: list.splits prod.splits)

lemma refill_synchronous [simp]: "synchronous (refill n s) = synchronous s"
  by (auto simp add: refill_def Let_def deliver_def split: list.splits prod.splits)

lemma refill_ended_mono: "ended s \<Longrightarrow> ended (refill n s)"
  by (simp add: refill_ended)


lemma howMuchToRead_enough:
  "0 < n \<Longrightarrow> n \<le> length (buffer s) \<Longrightarrow> howMuchToRead n s = n"
  by (auto simp add: howMuchToRead_def)

lemma read_buffered:
  assumes "0 < n" and "n \<le> length (buffer s)"
  shows "read n s = (Some (take n (buffer s)), consume n s)"
proof -
  obtain extra where extra: "buffer (refill n s) = buffer s @ extra"
    using refill_buffer by blast
  with assms have "howMuchToRead n (refill n s) = n"
    by (intro howMuchToRead_enough) simp_all
  with assms extra have "fst (read n s) = Some (take n (buffer s))"
    by (simp add: read_refill Let_def)
  then show ?thesis
    by (simp add: consume_def prod_eq_iff)
qed

lemma consume_buffered:
  assumes "0 < n" and "n \<le> length (buffer s)"
  shows "consume n s = (refill n s)\<lparr>buffer := drop n (buffer (refill n s))\<rparr>"
proof -
  obtain extra where extra: "buffer (refill n s) = buffer s @ extra"
    using refill_buffer by blast
  with assms have "howMuchToRead n (refill n s) = n"
    by (intro howMuchToRead_enough) simp_all
  with assms show ?thesis
    by (simp add: consume_def read_refill Let_def)
qed

lemma buffer_consume:
  assumes "0 < n" and "n \<le> length (buffer s)"
  shows "\<exists>extra. buffer (consume n s) = drop n (buffer s) @ extra"
proof -
  obtain extra where extra: "buffer (refill n s) = buffer s @ extra"
    using refill_buffer by blast
  with assms show ?thesis
    by (simp add: consume_buffered)
qed

lemma unread_consume:
  assumes "0 < n" and "n \<le> length (buffer s)"
  shows "unread (consume n s) = drop n (unread s)"
proof -
  obtain extra where extra: "buffer (refill n s) = buffer s @ extra"
    using refill_buffer by blast
  have "unread (refill n s) = unread s" by simp
  with extra
  have "extra @ concat (map fst (pending (refill n s))) = concat (map fst (pending s))"
    by (simp add: unread_def)
  with assms extra show ?thesis
    by (simp add: consume_buffered unread_def)
qed

lemma consume_quiet:
  assumes "0 < n" and "n \<le> length (buffer s)" and "\<not> synchronous s \<or> ended s"
  shows "consume n s = (raise_hwm n s)\<lparr>buffer := drop n (buffer s)\<rparr>"
  using assms by (auto simp add: consume_buffered refill_ended refill_asynchronous)

lemma read_unread:
  "read n s = (r, s') \<Longrightarrow>
   unread s = (case r of None \<Rightarrow> [] | Some bs \<Rightarrow> bs) @ unread s'"
proof -
  assume r: "read n s = (r, s')"
  have u: "unread (refill n s) = unread s" by simp
  show ?thesis
    using r u [symmetric]
    by (auto simp add: read_refill Let_def unread_def split: if_splits)
qed

lemma read_Some_nonempty: "read n s = (Some bs, s') \<Longrightarrow> bs \<noteq> []"
  by (auto simp add: read_refill Let_def howMuchToRead_def split: if_splits)

lemma read_synchronous: "read n s = (r, s') \<Longrightarrow> synchronous s' = synchronous s"
  by (auto simp add: read_refill Let_def split: if_splits)

lemma refill_pending: "synchronous s \<or> pending (refill n s) = pending s"
  by (cases "synchronous s") (simp_all add: refill_asynchronous)

lemma read_pending: "read n s = (r, s') \<Longrightarrow> synchronous s \<or> pending s' = pending s"
  using refill_pending [of s n]
  by (auto simp add: read_refill Let_def split: if_splits)

lemma read_ended: "read n s = (r, s') \<Longrightarrow> ended s \<Longrightarrow> ended s'"
  by (auto simp add: read_refill Let_def refill_ended split: if_splits)


lemma bindD_assoc: "bindD (bindD m f) g = bindD m (\<lambda>x. bindD (f x) g)"
  by (rule ext) (auto simp add: bindD_def split: Option.bind_split sum.splits)

lemma bindD_returnD: "bindD (returnD x) k = k x"
  by (rule ext) (simp add: bindD_def returnD_def)

lemma bindD_returnD_right: "bindD m returnD = m"
  by (rule ext) (auto simp add: bindD_def returnD_def split: Option.bind_split sum.splits)

lemma bindD_eq_Inr:
  "bindD m k s = Some (Inr y, s') \<longleftrightarrow>
     (\<exists>x s1. m s = Some (Inr x, s1) \<and> k x s1 = Some (Inr y, s'))"
  by (auto simp add: bindD_def split: Option.bind_splits sum.splits)

lemma arrayLoop_step:
  "i < len \<Longrightarrow> arrayLoop d len i arr s = bindD d (\<lambda>x. arrayLoop d len (Suc i) (arr @ [x])) s"
  by (subst arrayLoop.simps) simp

lemma arrayLoop_done: "\<not> i < len \<Longrightarrow> arrayLoop d len i arr s = returnD arr s"
  by (subst arrayLoop.simps) simp

lemma mapLoop_step:
  "i < len \<Longrightarrow> mapLoop dk dv len i obj s =
     bindD dk (\<lambda>k. bindD dv (\<lambda>v. mapLoop dk dv len (Suc i) (assign obj k v))) s"
  by (subst mapLoop.simps) simp

lemma mapLoop_done: "\<not> i < len \<Longrightarrow> mapLoop dk dv len i obj s = returnD obj s"
  by (subst mapLoop.simps) simp

lemma arrayLoop_spec:
  "arrayLoop d len i arr =
     bindD (spec_invoke_times d (len - i)) (\<lambda>xs. returnD (arr @ xs))"
proof (induction "len - i" arbitrary: i arr)
  case 0
  then have "\<not> i < len" by simp
  with 0 [symmetric] show ?case
    by (intro ext) (simp add: arrayLoop_done bindD_def returnD_def)
next
  case (Suc j)
  then have lt: "i < len" and j: "j = len - Suc i" by arith+
  have "arrayLoop d len i arr = bindD d (\<lambda>x. arrayLoop d len (Suc i) (arr @ [x]))"
    using lt by (intro ext) (rule arrayLoop_step)
  also have "\<dots> = bindD d (\<lambda>x. bindD (spec_invoke_times d j) (\<lambda>xs. returnD ((arr @ [x]) @ xs)))"
    using Suc.hyps(1) [OF j] j by simp
  also have "\<dots> = bindD (spec_invoke_times d (Suc j)) (\<lambda>xs. returnD (arr @ xs))"
    by (intro ext) (simp add: bindD_assoc bindD_returnD spec_invoke_times.simps(2) [abs_def])
  finally show ?case using Suc.hyps(2) by simp
qed

lemma spec_invoke_times_length:
  "spec_invoke_times d n s = Some (Inr xs, s') \<Longrightarrow> length xs = n"
  by (induction n arbitrary: s xs s') (auto simp add: returnD_def bindD_eq_Inr)

lemma deserialArrayFn_spec:
  "deserialArrayFn d = bindD deserialUint32 (spec_invoke_times d)"
  by (rule ext) (simp add: deserialArrayFn_def arrayLoop_spec bindD_returnD_right)

lemma mapLoop_spec:
  "mapLoop dk dv len i obj =
     bindD (spec_invoke_times (deserialTupleFn dk dv) (len - i))
       (\<lambda>kvs. returnD (assign_all obj kvs))"
proof (induction "len - i" arbitrary: i obj)
  case 0
  then have "\<not> i < len" by simp
  with 0 [symmetric] show ?case
    by (intro ext) (simp add: mapLoop_done bindD_def returnD_def)
next
  case (Suc j)
  then have lt: "i < len" and j: "j = len - Suc i" by arith+
  have "mapLoop dk dv len i obj =
      bindD dk (\<lambda>k. bindD dv (\<lambda>v. mapLoop dk dv len (Suc i) (assign obj k v)))"
    using lt by (intro ext) (rule mapLoop_step)
  also have "\<dots> = bindD dk (\<lambda>k. bindD dv (\<lambda>v.
      bindD (spec_invoke_times (deserialTupleFn dk dv) j)
        (\<lambda>kvs. returnD (assign_all (assign obj k v) kvs))))"
    using Suc.hyps(1) [OF j] j by simp
  also have "\<dots> = bindD (spec_invoke_times (deserialTupleFn dk dv) (Suc j))
      (\<lambda>kvs. returnD (assign_all obj kvs))"
    by (intro ext)
      (simp add: bindD_assoc bindD_returnD spec_invoke_times.simps(2) [abs_def]
        deserialTupleFn_def [abs_def])
  finally show ?case using Suc.hyps(2) by simp
qed

lemma deserialMapFn_spec:
  "deserialMapFn dk dv =
     bindD deserialUint32 (\<lambda>len.
       bindD (spec_invoke_times (deserialTupleFn dk dv) len)
         (\<lambda>kvs. returnD (assign_all Map.empty kvs)))"
  by (rule ext) (simp add: deserialMapFn_def mapLoop_spec)

lemma assign_all_lookup:
  "assign_all obj kvs k =
     (if k = proto_key then obj k
      else case map_of (rev kvs) k of Some v \<Rightarrow> Some v | None \<Rightarrow> obj k)"
proof (induction kvs arbitrary: obj)
  case Nil
  then show ?case by simp
next
  case (Cons kv kvs)
  obtain k' v' where kv: "kv = (k', v')" by (cases kv)
  show ?case
    unfolding kv
    by (simp add: Cons.IH assign_def map_add_def split: option.splits)
qed

lemma deserialMapFn_last_write_wins:
  assumes "deserialMapFn dk dv s = Some (Inr obj, s')"
  shows "\<exists>len s0 kvs.
      deserialUint32 s = Some (Inr len, s0)
      \<and> spec_invoke_times (deserialTupleFn dk dv) len s0 = Some (Inr kvs, s')
      \<and> length kvs = len
      \<and> obj proto_key = None
      \<and> (\<forall>k. k \<noteq> proto_key \<longrightarrow> obj k = map_of (rev kvs) k)"
proof -
  from assms obtain len s0 kvs where
    len: "deserialUint32 s = Some (Inr len, s0)" and
    kvs: "spec_invoke_times (deserialTupleFn dk dv) len s0 = Some (Inr kvs, s')" and
    obj: "obj = assign_all Map.empty kvs"
    by (auto simp add: deserialMapFn_spec bindD_eq_Inr returnD_def)
  from kvs have "length kvs = len" by (rule spec_invoke_times_length)
  with len kvs obj show ?thesis
    by (auto simp add: assign_all_lookup split: option.splits)
qed

lemma spec_invoke_times_numeral:
  "spec_invoke_times d (numeral n) s =
     bindD d (\<lambda>x. bindD (spec_invoke_times d (pred_numeral n)) (\<lambda>xs. returnD (x # xs))) s"
  by (simp add: numeral_eq_Suc)

lemma TextDecoder_decode_a: "TextDecoder_decode [0x61] = [97]"
  by (simp add: TextDecoder_decode_def utf8_lead_def utf8_initial_def)

lemma TextDecoder_decode_proto:
  "TextDecoder_decode [95, 95, 112, 114, 111, 116, 111, 95, 95] = proto_key"
  by (simp add: TextDecoder_decode_def utf8_lead_def utf8_initial_def proto_key_def)

lemma deserialUint8_result: "\<exists>r. deserialUint8 s = Some (r, consume 1 s)"
  by (auto simp add: deserialUint8_def consume_def split: prod.splits option.splits)

lemma deserialUint32_result: "\<exists>r. deserialUint32 s = Some (r, consume 4 s)"
  by (auto simp add: deserialUint32_def consume_def split: prod.splits option.splits)

lemma deserialUint8_Cons:
  "buffer s = b # rest \<Longrightarrow> deserialUint8 s = Some (Inr (unat b), consume 1 s)"
  by (simp add: deserialUint8_def read_buffered readUInt8_def)

lemma deserialUint32_Cons:
  "buffer s = b0 # b1 # b2 # b3 # rest \<Longrightarrow>
   deserialUint32 s =
     Some (Inr (unat b0 + unat b1 * 2 ^ 8 + unat b2 * 2 ^ 16 + unat b3 * 2 ^ 24),
           consume 4 s)"
  by (simp add: deserialUint32_def read_buffered readUInt32LE_def)

lemma bindD_deserialUint8:
  "buffer s = b # rest \<Longrightarrow> bindD deserialUint8 k s = k (unat b) (consume 1 s)"
  by (simp add: bindD_def deserialUint8_Cons)

lemma buffer_consume_Cons:
  "buffer s = b # rest \<Longrightarrow> \<exists>extra. buffer (consume 1 s) = rest @ extra"
  using buffer_consume [of 1 s] by simp

lemma unread_consume_Cons:
  "buffer s = b # rest \<Longrightarrow> unread s = b # unread (consume 1 s)"
  using unread_consume [of 1 s] by (simp add: unread_def)

lemma read_take:
  "read n s = (Some bs, s') \<Longrightarrow> length bs \<le> n"
  by (auto simp add: read_refill Let_def howMuchToRead_def split: if_splits)

lemma deserialUint8_Inr:
  assumes "deserialUint8 s = Some (Inr v, s')"
  shows "\<exists>b. unread s = b # unread s' \<and> v = unat b \<and> s' = consume 1 s"
proof -
  from assms obtain bs where r: "read 1 s = (Some bs, s')" and v: "readUInt8 bs 0 = Inr v"
    by (auto simp add: deserialUint8_def split: prod.splits option.splits)
  from r have "length bs \<le> 1" and "bs \<noteq> []"
    by (auto dest: read_take read_Some_nonempty)
  then obtain b where bs: "bs = [b]" by (cases bs) auto
  from read_unread [OF r] bs have "unread s = b # unread s'" by simp
  moreover from v bs have "v = unat b" by (simp add: readUInt8_def)
  moreover from r have "s' = consume 1 s" by (simp add: consume_def)
  ultimately show ?thesis by blast
qed

lemma deserialUint32_Inr:
  assumes "deserialUint32 s = Some (Inr v, s')"
  shows "\<exists>b0 b1 b2 b3. unread s = b0 # b1 # b2 # b3 # unread s'
      \<and> v = unat b0 + unat b1 * 2 ^ 8 + unat b2 * 2 ^ 16 + unat b3 * 2 ^ 24
      \<and> s' = consume 4 s"
proof -
  from assms obtain bs where r: "read 4 s = (Some bs, s')" and v: "readUInt32LE bs 0 = Inr v"
    by (auto simp add: deserialUint32_def split: prod.splits option.splits)
  from r have "length bs \<le> 4" by (rule read_take)
  moreover from v have "4 \<le> length bs" by (simp add: readUInt32LE_def split: if_splits)
  ultimately have "length bs = 4" by simp
  then obtain b0 b1 b2 b3 where bs: "bs = [b0, b1, b2, b3]"
    by (cases bs; simp; cases "tl bs"; simp; cases "tl (tl bs)"; simp;
        cases "tl (tl (tl bs))"; simp)
  from read_unread [OF r] bs have "unread s = b0 # b1 # b2 # b3 # unread s'" by simp
  moreover from v bs
  have "v = unat b0 + unat b1 * 2 ^ 8 + unat b2 * 2 ^ 16 + unat b3 * 2 ^ 24"
    by (simp add: readUInt32LE_def)
  moreover from r have "s' = consume 4 s" by (simp add: consume_def)
  ultimately show ?thesis by blast
qed

lemma read_returns:
  "read n s = (r, s') \<Longrightarrow>
   length (unread s') \<le> length (unread s) \<and> synchronous s' = synchronous s
   \<and> (synchronous s \<or> pending s' = pending s)"
  using read_unread [of n s r s'] read_synchronous [of n s r s'] read_pending [of n s r s']
  by simp


lemma returns_uptoD:
  "returns_upto n d \<Longrightarrow> length (unread s) \<le> n \<Longrightarrow>
   \<exists>r s'. d s = Some (r, s') \<and> length (unread s') \<le> length (unread s)
     \<and> synchronous s' = synchronous s \<and> (synchronous s \<or> pending s' = pending s)"
  by (simp add: returns_upto_def)

lemma returns_upto_returnD: "returns_upto n (returnD x)"
  by (simp add: returns_upto_def returnD_def)

lemma returns_upto_throwD: "returns_upto n (throwD e)"
  by (simp add: returns_upto_def throwD_def)

lemma returns_upto_if:
  "returns_upto n (\<lambda>s. A s) \<Longrightarrow> returns_upto n (\<lambda>s. B s) \<Longrightarrow>
   returns_upto n (\<lambda>s. if c then A s else B s)"
  by (cases c) simp_all

lemma returns_upto_bindD:
  assumes m: "returns_upto n m" and k: "\<And>x. returns_upto n (k x)"
  shows "returns_upto n (bindD m k)"
  unfolding returns_upto_def
proof (intro allI impI)
  fix s :: readable assume len: "length (unread s) \<le> n"
  from returns_uptoD [OF m len] obtain r s1
    where ms: "m s = Some (r, s1)" and l1: "length (unread s1) \<le> length (unread s)"
      and y1: "synchronous s1 = synchronous s" and p1: "synchronous s \<or> pending s1 = pending s"
    by blast
  show "\<exists>r s'. bindD m k s = Some (r, s') \<and> length (unread s') \<le> length (unread s)
      \<and> synchronous s' = synchronous s \<and> (synchronous s \<or> pending s' = pending s)"
  proof (cases r)
    case (Inl e)
    with ms l1 y1 p1 show ?thesis by (simp add: bindD_def)
  next
    case (Inr x)
    from l1 len have "length (unread s1) \<le> n" by simp
    from returns_uptoD [OF k this] obtain r' s2
      where "k x s1 = Some (r', s2)" and "length (unread s2) \<le> length (unread s1)"
        and "synchronous s2 = synchronous s1" and "synchronous s1 \<or> pending s2 = pending s1"
      by blast
    with ms l1 y1 p1 Inr show ?thesis by (auto simp add: bindD_def)
  qed
qed

lemma returns_upto_deserialUint8: "returns_upto n deserialUint8"
  by (auto simp add: returns_upto_def deserialUint8_def split: prod.splits option.splits
      dest: read_returns)

lemma returns_upto_deserialUint32: "returns_upto n deserialUint32"
  by (auto simp add: returns_upto_def deserialUint32_def split: prod.splits option.splits
      dest: read_returns)

lemma returns_upto_arrayLoop:
  assumes d: "returns_upto n d"
  shows "returns_upto n (arrayLoop d len i arr)"
proof (induction "len - i" arbitrary: i arr)
  case 0
  then have "arrayLoop d len i arr = returnD arr"
    by (intro ext) (simp add: arrayLoop.simps)
  then show ?case by (simp add: returns_upto_returnD)
next
  case (Suc j)
  then have "i < len" by arith
  then have "arrayLoop d len i arr = bindD d (\<lambda>x. arrayLoop d len (Suc i) (arr @ [x]))"
    by (intro ext) (simp add: arrayLoop.simps [of d len i])
  moreover have "returns_upto n (arrayLoop d len (Suc i) (arr @ [x]))" for x
    using Suc.hyps(2) by (intro Suc.hyps(1)) simp
  ultimately show ?case by (simp add: returns_upto_bindD d)
qed

lemma returns_upto_mapLoop:
  assumes k: "returns_upto n dk" and v: "returns_upto n dv"
  shows "returns_upto n (mapLoop dk dv len i obj)"
proof (induction "len - i" arbitrary: i obj)
  case 0
  then have "mapLoop dk dv len i obj = returnD obj"
    by (intro ext) (simp add: mapLoop.simps)
  then show ?case by (simp add: returns_upto_returnD)
next
  case (Suc j)
  then have "i < len" by arith
  then have "mapLoop dk dv len i obj =
      bindD dk (\<lambda>k. bindD dv (\<lambda>v. mapLoop dk dv len (Suc i) (assign obj k v)))"
    by (intro ext) (simp add: mapLoop.simps [of dk dv len i])
  moreover have "returns_upto n (mapLoop dk dv len (Suc i) obj')" for obj'
    using Suc.hyps(2) by (intro Suc.hyps(1)) simp
  ultimately show ?case by (simp add: returns_upto_bindD k v)
qed

lemma returns_upto_deserialArrayFn:
  "returns_upto n d \<Longrightarrow> returns_upto n (deserialArrayFn d)"
  unfolding deserialArrayFn_def [abs_def]
  by (intro returns_upto_bindD returns_upto_deserialUint32 returns_upto_arrayLoop)

lemma returns_upto_deserialMapFn:
  "returns_upto n dk \<Longrightarrow> returns_upto n dv \<Longrightarrow> returns_upto n (deserialMapFn dk dv)"
  unfolding deserialMapFn_def [abs_def]
  by (intro returns_upto_bindD returns_upto_deserialUint32 returns_upto_mapLoop)

lemma returns_upto_deserialTupleFn:
  "returns_upto n l \<Longrightarrow> returns_upto n r \<Longrightarrow> returns_upto n (deserialTupleFn l r)"
  unfolding deserialTupleFn_def [abs_def]
  by (intro returns_upto_bindD returns_upto_returnD)

lemma returns_upto_deserialOptionFn:
  "returns_upto n d \<Longrightarrow> returns_upto n (deserialOptionFn d)"
  unfolding deserialOptionFn_def [abs_def]
  by (intro returns_upto_bindD returns_upto_if returns_upto_returnD returns_upto_throwD
      returns_upto_deserialUint8)

lemma returns_upto_deserialString: "returns_upto n deserialString"
  unfolding deserialString_def [abs_def]
  by (intro returns_upto_bindD returns_upto_returnD returns_upto_deserialArrayFn
      returns_upto_deserialUint8)

lemma returns_upto_deserialFields_of:
  "returns_upto n d \<Longrightarrow> returns_upto n (deserialFields_of d)"
  unfolding deserialFields_of_def [abs_def]
  by (intro returns_upto_bindD returns_upto_if returns_upto_returnD returns_upto_throwD
      returns_upto_deserialUint8 returns_upto_deserialArrayFn returns_upto_deserialTupleFn
      returns_upto_deserialString)

lemma returns_upto_after_tag:
  assumes k: "\<And>x m. m < n \<Longrightarrow> returns_upto m (k x)"
  shows "returns_upto n (bindD deserialUint8 k)"
  unfolding returns_upto_def
proof (intro allI impI)
  fix s :: readable assume len: "length (unread s) \<le> n"
  from returns_uptoD [OF returns_upto_deserialUint8 len] obtain r s1
    where r: "deserialUint8 s = Some (r, s1)" and l1: "length (unread s1) \<le> length (unread s)"
      and y1: "synchronous s1 = synchronous s" and p1: "synchronous s \<or> pending s1 = pending s"
    by blast
  show "\<exists>r s'. bindD deserialUint8 k s = Some (r, s') \<and> length (unread s') \<le> length (unread s)
      \<and> synchronous s' = synchronous s \<and> (synchronous s \<or> pending s' = pending s)"
  proof (cases r)
    case (Inl e)
    with r l1 y1 p1 show ?thesis by (simp add: bindD_def)
  next
    case (Inr x)
    with r obtain b where "unread s = b # unread s1"
      using deserialUint8_Inr by blast
    with len have "length (unread s1) < n" by simp
    from k [OF this] have "returns_upto (length (unread s1)) (k x)" .
    from returns_uptoD [OF this, of s1] obtain r' s2
      where "k x s1 = Some (r', s2)" and "length (unread s2) \<le> length (unread s1)"
        and "synchronous s2 = synchronous s1" and "synchronous s1 \<or> pending s2 = pending s1"
      by auto
    with r l1 y1 p1 Inr show ?thesis by (auto simp add: bindD_def)
  qed
qed

lemma returns_upto_deserialType: "returns_upto n deserialType"
proof (induction n rule: less_induct)
  case (less n)
  show ?case
    unfolding returns_upto_def
  proof (intro allI impI)
    fix s :: readable assume len: "length (unread s) \<le> n"
    show "\<exists>r s'. deserialType s = Some (r, s') \<and> length (unread s') \<le> length (unread s)
        \<and> synchronous s' = synchronous s \<and> (synchronous s \<or> pending s' = pending s)"
      apply (subst deserialType.simps)
      apply (rule returns_uptoD [OF returns_upto_after_tag, OF _ len])
      apply (intro returns_upto_if returns_upto_bindD returns_upto_returnD returns_upto_throwD
          returns_upto_deserialUint8 returns_upto_deserialUint32 returns_upto_deserialArrayFn
          returns_upto_deserialTupleFn returns_upto_deserialString returns_upto_deserialFields_of
          less.IH)
      apply assumption+
      done
  qed
qed

lemma after_tag_strict:
  assumes k: "\<And>x m. returns_upto m (k x)"
    and res: "bindD deserialUint8 k s = Some (Inr y, s')"
  shows "length (unread s') < length (unread s)"
proof -
  from res obtain x s1 where r: "deserialUint8 s = Some (Inr x, s1)"
    and kx: "k x s1 = Some (Inr y, s')"
    by (auto simp add: bindD_eq_Inr)
  from r obtain b where u: "unread s = b # unread s1"
    using deserialUint8_Inr by blast
  from returns_uptoD [OF k, of s1 "length (unread s1)" x] kx
  have "length (unread s') \<le> length (unread s1)" by simp
  with u show ?thesis by simp
qed

lemma deserialType_consumes:
  assumes "deserialType s = Some (Inr t, s')"
  shows "length (unread s') < length (unread s)"
  using assms
  apply (subst (asm) deserialType.simps)
  apply (erule after_tag_strict [rotated])
  apply (intro returns_upto_if returns_upto_bindD returns_upto_returnD returns_upto_throwD
      returns_upto_deserialUint8 returns_upto_deserialUint32 returns_upto_deserialArrayFn
      returns_upto_deserialTupleFn returns_upto_deserialString returns_upto_deserialFields_of
      returns_upto_deserialType)
  done


lemma deserialType_unfold_tag:
  assumes "buffer s = b # rest"
  shows "deserialType s =
     (let tag = unat b; source = consume 1 s in
       if tag = TypeTag_Unit \<or> tag = TypeTag_Bool \<or> tag = TypeTag_U8 \<or> tag = TypeTag_U16
          \<or> tag = TypeTag_U32 \<or> tag = TypeTag_U64 \<or> tag = TypeTag_U128 \<or> tag = TypeTag_I8
          \<or> tag = TypeTag_I16 \<or> tag = TypeTag_I32 \<or> tag = TypeTag_I64 \<or> tag = TypeTag_I128
          \<or> tag = TypeTag_Amount \<or> tag = TypeTag_AccountAddress
          \<or> tag = TypeTag_ContractAddress \<or> tag = TypeTag_Timestamp
          \<or> tag = TypeTag_Duration
       then returnD (Type_Scalar tag) source
       else if tag = TypeTag_Pair then
         bindD deserialType (\<lambda>ofLeft.
           bindD deserialType (\<lambda>ofRight.
             returnD (Type_Pair tag ofLeft ofRight))) source
       else if tag = TypeTag_List \<or> tag = TypeTag_Set then
         bindD deserialUint8 (\<lambda>sizeLength.
           bindD deserialType (\<lambda>of_elem.
             returnD (Type_Collection tag sizeLength of_elem))) source
       else if tag = TypeTag_Map then
         bindD deserialUint8 (\<lambda>sizeLength.
           bindD deserialType (\<lambda>ofKeys.
             bindD deserialType (\<lambda>ofValues.
               returnD (Type_Map tag sizeLength ofKeys ofValues)))) source
       else if tag = TypeTag_Array then
         bindD deserialUint32 (\<lambda>size_elems.
           bindD deserialType (\<lambda>of_elem.
             returnD (Type_Array tag size_elems of_elem))) source
       else if tag = TypeTag_Struct then
         bindD (deserialFields_of deserialType) (\<lambda>fields.
           returnD (Type_Struct tag fields)) source
       else if tag = TypeTag_Enum then
         bindD (deserialArrayFn (deserialTupleFn deserialString (deserialFields_of deserialType)))
           (\<lambda>variants. returnD (Type_Enum tag variants)) source
       else if tag = TypeTag_String \<or> tag = TypeTag_ContractName \<or> tag = TypeTag_ReceiveName then
         bindD deserialUint8 (\<lambda>sizeLength.
           returnD (Type_Text tag sizeLength)) source
       else throwD (UnsupportedTypeTag tag) source)"
  using assms
  by (subst deserialType.simps) (simp add: bindD_deserialUint8 Let_def)

lemma deserialType_scalar:
  assumes "buffer s = b # rest" and "unat b \<le> 14 \<or> unat b = 23 \<or> unat b = 24"
  shows "deserialType s = Some (Inr (Type_Scalar (unat b)), consume 1 s)"
proof -
  from assms(2) have cond:
    "unat b = TypeTag_Unit \<or> unat b = TypeTag_Bool \<or> unat b = TypeTag_U8
     \<or> unat b = TypeTag_U16 \<or> unat b = TypeTag_U32 \<or> unat b = TypeTag_U64
     \<or> unat b = TypeTag_U128 \<or> unat b = TypeTag_I8 \<or> unat b = TypeTag_I16
     \<or> unat b = TypeTag_I32 \<or> unat b = TypeTag_I64 \<or> unat b = TypeTag_I128
     \<or> unat b = TypeTag_Amount \<or> unat b = TypeTag_AccountAddress
     \<or> unat b = TypeTag_ContractAddress \<or> unat b = TypeTag_Timestamp
     \<or> unat b = TypeTag_Duration"
    by arith
  show ?thesis
    using deserialType_unfold_tag [OF assms(1)]
    unfolding Let_def if_P [OF cond]
    by (simp add: returnD_def)
qed

lemma closed_source_simps [simp]:
  "buffer (closed_source bs) = bs"
  "pending (closed_source bs) = []"
  "ended (closed_source bs)"
  "\<not> synchronous (closed_source bs)"
  "highWaterMark (closed_source bs) = 16384"
  "unread (closed_source bs) = bs"
  by (simp_all add: closed_source_def unread_def)

lemma closed_source_buffer [simp]: "(closed_source bs)\<lparr>buffer := cs\<rparr> = closed_source cs"
  by (simp add: closed_source_def)

lemma consume_closed_source:
  "0 < n \<Longrightarrow> n \<le> length bs \<Longrightarrow> n \<le> 16384 \<Longrightarrow>
   consume n (closed_source bs) = closed_source (drop n bs)"
  by (simp add: consume_quiet raise_hwm_def)

lemma consume_1_closed_source [simp]:
  "consume 1 (closed_source (b # bs)) = closed_source bs"
  "consume (Suc 0) (closed_source (b # bs)) = closed_source bs"
  by (simp_all add: consume_closed_source)

lemma consume_4_closed_source [simp]:
  "consume 4 (closed_source (b0 # b1 # b2 # b3 # bs)) = closed_source bs"
  by (simp add: consume_closed_source)

lemma read_ended_eq:
  "ended s \<Longrightarrow>
   read n s =
     (let t = raise_hwm n s; k = (if n = 0 then 0 else min n (length (buffer s))) in
      if 0 < k then (Some (take k (buffer s)), t\<lparr>buffer := drop k (buffer s)\<rparr>) else (None, t))"
  by (auto simp add: read_refill refill_ended Let_def howMuchToRead_def min_def)

lemma deserialUint8_ended:
  "ended s \<Longrightarrow>
   deserialUint8 s =
     (case buffer s of
        [] \<Rightarrow> Some (Inl NullDereference, raise_hwm 1 s)
      | b # rest \<Rightarrow> Some (Inr (unat b), (raise_hwm 1 s)\<lparr>buffer := rest\<rparr>))"
  by (cases "buffer s") (simp_all add: deserialUint8_def read_ended_eq Let_def readUInt8_def)


lemma raise_hwm_closed_source_1 [simp]:
  "raise_hwm 1 (closed_source bs) = closed_source bs"
  "raise_hwm (Suc 0) (closed_source bs) = closed_source bs"
  by (simp_all add: raise_hwm_def)

lemma raise_hwm_closed_source_4 [simp]: "raise_hwm 4 (closed_source bs) = closed_source bs"
  by (simp add: raise_hwm_def)

lemma deserialUint8_closed:
  "deserialUint8 (closed_source bs) =
     (case bs of
        [] \<Rightarrow> Some (Inl NullDereference, closed_source [])
      | b # rest \<Rightarrow> Some (Inr (unat b), closed_source rest))"
  by (simp add: deserialUint8_ended split: list.splits)

lemma deserialUint32_closed:
  "deserialUint32 (closed_source (b0 # b1 # b2 # b3 # rest)) =
     Some (Inr (unat b0 + unat b1 * 2 ^ 8 + unat b2 * 2 ^ 16 + unat b3 * 2 ^ 24),
           closed_source rest)"
  by (simp add: deserialUint32_Cons [where rest = rest])

lemma deserialType_scalar_closed:
  "unat b \<le> 14 \<or> unat b = 23 \<or> unat b = 24 \<Longrightarrow>
   deserialType (closed_source (b # rest)) = Some (Inr (Type_Scalar (unat b)), closed_source rest)"
  using deserialType_scalar [of "closed_source (b # rest)" b rest] by simp

lemmas eval_simps =
  deserialArrayFn_def deserialMapFn_def deserialTupleFn_def deserialOptionFn_def
  deserialString_def bindD_def returnD_def throwD_def deserialUint8_closed
  deserialUint32_closed arrayLoop_step arrayLoop_done mapLoop_step mapLoop_done

lemma deliver_all:
  "\<not> ended s \<Longrightarrow>
   (deliver ^^ length cs) (s\<lparr>pending := map (\<lambda>chunk. (chunk, False)) cs\<rparr>)
     = s\<lparr>buffer := buffer s @ concat cs, pending := []\<rparr>"
proof (induction cs arbitrary: s)
  case Nil
  then show ?case by simp
next
  case (Cons c cs)
  let ?t = "s\<lparr>buffer := buffer s @ c\<rparr>"
  have "(deliver ^^ length (c # cs)) (s\<lparr>pending := map (\<lambda>chunk. (chunk, False)) (c # cs)\<rparr>)
      = (deliver ^^ length cs)
          (deliver (s\<lparr>pending := map (\<lambda>chunk. (chunk, False)) (c # cs)\<rparr>))"
    by (simp add: funpow_swap1)
  also have "deliver (s\<lparr>pending := map (\<lambda>chunk. (chunk, False)) (c # cs)\<rparr>)
      = ?t\<lparr>pending := map (\<lambda>chunk. (chunk, False)) cs\<rparr>"
    using Cons.prems by (simp add: deliver_def)
  also have "(deliver ^^ length cs) (?t\<lparr>pending := map (\<lambda>chunk. (chunk, False)) cs\<rparr>)
      = ?t\<lparr>buffer := buffer ?t @ concat cs, pending := []\<rparr>"
    using Cons.prems by (intro Cons.IH) simp
  finally show ?case by simp
qed

lemma deserialType_Nil_closed:
  "deserialType (closed_source []) = Some (Inl NullDereference, closed_source [])"
  by (subst deserialType.simps) (simp add: bindD_def deserialUint8_closed)


lemma raise_hwm_buffer_update:
  "raise_hwm n (s\<lparr>buffer := bs\<rparr>) = (raise_hwm n s)\<lparr>buffer := bs\<rparr>"
  by (simp add: raise_hwm_def)


lemma cut_local_mono: "cut_local n d \<Longrightarrow> m \<le> n \<Longrightarrow> cut_local m d"
  unfolding cut_local_def by (meson le_trans)






















lemma raise_hwm_idem: "raise_hwm n (raise_hwm n s) = raise_hwm n s"
  by (simp add: raise_hwm_def computeNewHighWaterMark_ge)

lemma consume_Cons_quiet:
  "buffer s = b # rest \<Longrightarrow> \<not> synchronous s \<or> ended s \<Longrightarrow>
   consume 1 s = (raise_hwm 1 s)\<lparr>buffer := rest\<rparr>"
  using consume_quiet [of 1 s] by simp

lemma consume_Cons_Cons_quiet:
  assumes "buffer s = a # b # rest" and "\<not> synchronous s \<or> ended s"
  shows "consume 1 (consume 1 s) = (raise_hwm 1 s)\<lparr>buffer := rest\<rparr>"
proof -
  let ?t = "(raise_hwm 1 s)\<lparr>buffer := b # rest\<rparr>"
  have 1: "consume 1 s = ?t" by (rule consume_Cons_quiet [OF assms])
  from assms(2) have "\<not> synchronous ?t \<or> ended ?t" by simp
  then have "consume 1 ?t = (raise_hwm 1 ?t)\<lparr>buffer := rest\<rparr>"
    by (intro consume_Cons_quiet [where b = b]) simp_all
  with 1 show ?thesis by (simp add: raise_hwm_buffer_update raise_hwm_idem)
qed

lemma unread_consume_Cons_Cons:
  assumes "buffer s = a # b # rest"
  shows "unread s = a # b # unread (consume 1 (consume 1 s))"
proof -
  from assms obtain extra where "buffer (consume 1 s) = b # (rest @ extra)"
    using buffer_consume_Cons [of s a "b # rest"] by auto
  from unread_consume_Cons [OF this] unread_consume_Cons [OF assms]
  show ?thesis by simp
qed

lemma refill_pull:
  assumes "synchronous s" and "\<not> ended s" and "length (buffer s) < n"
  shows "refill n s = deliver (raise_hwm n s)"
proof -
  have "length (buffer s) < highWaterMark (raise_hwm n s)"
    using assms(3) raise_hwm_simps(5) [of n s] by (rule less_le_trans)
  with assms show ?thesis
    by (simp add: refill_def Let_def howMuchToRead_def)
qed

lemma read_not_waiting:
  assumes "\<not> ended s" and "length (buffer s) < n"
    and "\<not> synchronous s \<or> pending s = []
       \<or> (\<exists>c cs. pending s = (c, False) # cs \<and> length (buffer s @ c) < n)"
  shows "fst (read n s) = None"
proof (cases "synchronous s")
  case False
  with assms show ?thesis
    by (simp add: read_refill refill_asynchronous Let_def howMuchToRead_def)
next
  case True
  with assms show ?thesis
    by (auto simp add: read_refill refill_pull Let_def howMuchToRead_def deliver_def)
qed

lemma read_pull:
  assumes "synchronous s" and "\<not> ended s" and "length (buffer s) < n"
    and "pending s = (c, e) # cs" and "n \<le> length (buffer s @ c)"
  shows "fst (read n s) = Some (take n (buffer s @ c))"
  using assms
  by (auto simp add: read_refill refill_pull Let_def howMuchToRead_def deliver_def)

lemma read_pull_end:
  assumes "synchronous s" and "\<not> ended s" and "length (buffer s) < n"
    and "pending s = (c, True) # cs" and "length (buffer s @ c) < n"
  shows "fst (read n s) = (if buffer s @ c = [] then None else Some (buffer s @ c))"
  using assms
  by (auto simp add: read_refill refill_pull Let_def howMuchToRead_def deliver_def)

lemma buffer_delivered:
  "buffer ((deliver ^^ length cs) (source_of sync cs)) = concat cs"
proof -
  have "source_of sync cs
      = (source_of sync [])\<lparr>pending := map (\<lambda>chunk. (chunk, False)) cs\<rparr>"
    by (simp add: source_of_def)
  moreover have "\<not> ended (source_of sync [])"
    by (simp add: source_of_def)
  ultimately show ?thesis
    by (simp add: deliver_all) (simp add: source_of_def)
qed

lemmas live_eval =
  deserialUint8_def deserialUint32_def read_def Let_def howMuchToRead_def deliver_def
  readUInt8_def readUInt32LE_def source_of_def


section \<open>Claims\<close>

text \<open>
  C1 (as amended). \<open>deserialUint8\<close> and \<open>deserialUint32\<close> return the value of exactly
  the next 1, respectively 4, bytes of the stream (the 4 bytes read as a little-endian
  number), which they consume, or fail. They keep no buffer of their own and do not
  suspend. They succeed whenever the bytes are in the buffer of the source at the call,
  however many deliveries brought them there, so for delivered bytes the result does not
  depend on the chunk boundaries; and they succeed when the bytes are completed by the one
  delivery that the call itself pulls from a resource that pushes synchronously. When the
  bytes are still incomplete after that and the source has not ended, the call fails with
  a null dereference instead of waiting for further deliveries.
\<close>

theorem primitive_reads_exact_or_fail:
  "(\<forall>v s'. deserialUint8 s = Some (Inr v, s') \<longrightarrow>
      (\<exists>b. unread s = b # unread s' \<and> v = unat b))
   \<and> (\<forall>v s'. deserialUint32 s = Some (Inr v, s') \<longrightarrow>
      (\<exists>b0 b1 b2 b3. unread s = b0 # b1 # b2 # b3 # unread s'
         \<and> v = unat b0 + unat b1 * 2 ^ 8 + unat b2 * 2 ^ 16 + unat b3 * 2 ^ 24))
   \<and> (\<forall>b rest. buffer s = b # rest \<longrightarrow>
        deserialUint8 s = Some (Inr (unat b), consume 1 s))
   \<and> (\<forall>b0 b1 b2 b3 rest. buffer s = b0 # b1 # b2 # b3 # rest \<longrightarrow>
        deserialUint32 s =
          Some (Inr (unat b0 + unat b1 * 2 ^ 8 + unat b2 * 2 ^ 16 + unat b3 * 2 ^ 24),
                consume 4 s))
   \<and> (\<forall>b rest. concat cs = b # rest \<longrightarrow>
        (\<exists>s'. deserialUint8 ((deliver ^^ length cs) (source_of sync cs))
                = Some (Inr (unat b), s')))
   \<and> (\<forall>b0 b1 b2 b3 rest. concat cs = b0 # b1 # b2 # b3 # rest \<longrightarrow>
        (\<exists>s'. deserialUint32 ((deliver ^^ length cs) (source_of sync cs))
                = Some (Inr (unat b0 + unat b1 * 2 ^ 8 + unat b2 * 2 ^ 16 + unat b3 * 2 ^ 24),
                        s')))
   \<and> (\<forall>b c e cs'.
        synchronous s \<and> \<not> ended s \<and> buffer s = [] \<and> pending s = (b # c, e) # cs' \<longrightarrow>
        deserialUint8 s = Some (Inr (unat b), consume 1 s))
   \<and> (\<forall>c e cs' b0 b1 b2 b3 rest.
        synchronous s \<and> \<not> ended s \<and> length (buffer s) < 4 \<and> pending s = (c, e) # cs'
          \<and> buffer s @ c = b0 # b1 # b2 # b3 # rest \<longrightarrow>
        deserialUint32 s =
          Some (Inr (unat b0 + unat b1 * 2 ^ 8 + unat b2 * 2 ^ 16 + unat b3 * 2 ^ 24),
                consume 4 s))
   \<and> (\<not> ended s \<and> buffer s = []
        \<and> (\<not> synchronous s \<or> pending s = [] \<or> (\<exists>cs'. pending s = ([], False) # cs')) \<longrightarrow>
        deserialUint8 s = Some (Inl NullDereference, consume 1 s))
   \<and> (\<not> ended s \<and> length (buffer s) < 4
        \<and> (\<not> synchronous s \<or> pending s = []
             \<or> (\<exists>c cs'. pending s = (c, False) # cs' \<and> length (buffer s @ c) < 4)) \<longrightarrow>
        deserialUint32 s = Some (Inl NullDereference, consume 4 s))
   \<and> (\<forall>c cs'.
        synchronous s \<and> \<not> ended s \<and> pending s = (c, True) # cs'
          \<and> length (buffer s @ c) < 4 \<longrightarrow>
        deserialUint32 s =
          Some (Inl (if buffer s @ c = [] then NullDereference else BufferOutOfBounds),
                consume 4 s))"
proof (intro conjI allI impI)
  fix v s' assume "deserialUint8 s = Some (Inr v, s')"
  then show "\<exists>b. unread s = b # unread s' \<and> v = unat b"
    using deserialUint8_Inr by blast
next
  fix v s' assume "deserialUint32 s = Some (Inr v, s')"
  then show "\<exists>b0 b1 b2 b3. unread s = b0 # b1 # b2 # b3 # unread s'
         \<and> v = unat b0 + unat b1 * 2 ^ 8 + unat b2 * 2 ^ 16 + unat b3 * 2 ^ 24"
    using deserialUint32_Inr by blast
next
  fix b rest assume "buffer s = b # rest"
  then show "deserialUint8 s = Some (Inr (unat b), consume 1 s)"
    by (rule deserialUint8_Cons)
next
  fix b0 b1 b2 b3 rest assume "buffer s = b0 # b1 # b2 # b3 # rest"
  then show "deserialUint32 s =
      Some (Inr (unat b0 + unat b1 * 2 ^ 8 + unat b2 * 2 ^ 16 + unat b3 * 2 ^ 24), consume 4 s)"
    by (rule deserialUint32_Cons)
next
  fix b rest assume "concat cs = b # rest"
  then have "buffer ((deliver ^^ length cs) (source_of sync cs)) = b # rest"
    by (simp add: buffer_delivered)
  from deserialUint8_Cons [OF this]
  show "\<exists>s'. deserialUint8 ((deliver ^^ length cs) (source_of sync cs))
      = Some (Inr (unat b), s')" by blast
next
  fix b0 b1 b2 b3 rest assume "concat cs = b0 # b1 # b2 # b3 # rest"
  then have "buffer ((deliver ^^ length cs) (source_of sync cs)) = b0 # b1 # b2 # b3 # rest"
    by (simp add: buffer_delivered)
  from deserialUint32_Cons [OF this]
  show "\<exists>s'. deserialUint32 ((deliver ^^ length cs) (source_of sync cs))
      = Some (Inr (unat b0 + unat b1 * 2 ^ 8 + unat b2 * 2 ^ 16 + unat b3 * 2 ^ 24), s')"
    by blast
next
  fix b c e cs'
  assume a: "synchronous s \<and> \<not> ended s \<and> buffer s = [] \<and> pending s = (b # c, e) # cs'"
  then have "fst (read 1 s) = Some (take 1 (buffer s @ (b # c)))"
    by (intro read_pull [where cs = cs' and e = e]) simp_all
  with a have "read 1 s = (Some [b], consume 1 s)"
    by (simp add: consume_def prod_eq_iff)
  then show "deserialUint8 s = Some (Inr (unat b), consume 1 s)"
    by (simp add: deserialUint8_def readUInt8_def)
next
  fix c e cs' b0 b1 b2 b3 rest
  assume a: "synchronous s \<and> \<not> ended s \<and> length (buffer s) < 4 \<and> pending s = (c, e) # cs'
          \<and> buffer s @ c = b0 # b1 # b2 # b3 # rest"
  then have "fst (read 4 s) = Some (take 4 (buffer s @ c))"
    by (intro read_pull [where cs = cs' and e = e]) simp_all
  with a have "read 4 s = (Some [b0, b1, b2, b3], consume 4 s)"
    by (simp add: consume_def prod_eq_iff)
  then show "deserialUint32 s =
      Some (Inr (unat b0 + unat b1 * 2 ^ 8 + unat b2 * 2 ^ 16 + unat b3 * 2 ^ 24), consume 4 s)"
    by (simp add: deserialUint32_def readUInt32LE_def)
next
  assume a: "\<not> ended s \<and> buffer s = []
        \<and> (\<not> synchronous s \<or> pending s = [] \<or> (\<exists>cs'. pending s = ([], False) # cs'))"
  then have "fst (read 1 s) = None"
    by (intro read_not_waiting) auto
  then have "read 1 s = (None, consume 1 s)"
    by (simp add: consume_def prod_eq_iff)
  then show "deserialUint8 s = Some (Inl NullDereference, consume 1 s)"
    by (simp add: deserialUint8_def)
next
  assume a: "\<not> ended s \<and> length (buffer s) < 4
        \<and> (\<not> synchronous s \<or> pending s = []
             \<or> (\<exists>c cs'. pending s = (c, False) # cs' \<and> length (buffer s @ c) < 4))"
  then have "fst (read 4 s) = None"
    by (intro read_not_waiting) auto
  then have "read 4 s = (None, consume 4 s)"
    by (simp add: consume_def prod_eq_iff)
  then show "deserialUint32 s = Some (Inl NullDereference, consume 4 s)"
    by (simp add: deserialUint32_def)
next
  fix c cs'
  assume a: "synchronous s \<and> \<not> ended s \<and> pending s = (c, True) # cs'
          \<and> length (buffer s @ c) < 4"
  then have "fst (read 4 s) = (if buffer s @ c = [] then None else Some (buffer s @ c))"
    by (intro read_pull_end [where cs = cs']) simp_all
  then have "read 4 s
      = ((if buffer s @ c = [] then None else Some (buffer s @ c)), consume 4 s)"
    by (simp add: consume_def prod_eq_iff)
  with a show "deserialUint32 s =
      Some (Inl (if buffer s @ c = [] then NullDereference else BufferOutOfBounds),
            consume 4 s)"
    by (simp add: deserialUint32_def readUInt32LE_def)
qed

theorem primitive_reads_exact_or_fail_witness:
  "deserialUint32 ((deliver ^^ 2) (source_of False [[1, 0], [0, 0]]))
     = Some (Inr 1,
             \<lparr>buffer = [], pending = [], ended = False, synchronous = False,
              highWaterMark = 16384\<rparr>)
   \<and> (\<exists>s'. deserialUint32 ((deliver ^^ 3) (source_of False [[1], [0, 0], [0]]))
              = Some (Inr 1, s'))
   \<and> deserialUint32
       \<lparr>buffer = [1, 0], pending = [([0, 0, 9], False)], ended = False, synchronous = True,
        highWaterMark = 16384\<rparr>
     = Some (Inr 1,
             \<lparr>buffer = [9], pending = [], ended = False, synchronous = True,
              highWaterMark = 16384\<rparr>)
   \<and> deserialUint32
       \<lparr>buffer = [1, 0], pending = [([0, 0], False)], ended = False, synchronous = False,
        highWaterMark = 16384\<rparr>
     = Some (Inl NullDereference,
             \<lparr>buffer = [1, 0], pending = [([0, 0], False)], ended = False,
              synchronous = False, highWaterMark = 16384\<rparr>)
   \<and> deserialUint32
       \<lparr>buffer = [1], pending = [([0], True)], ended = False, synchronous = True,
        highWaterMark = 16384\<rparr>
     = Some (Inl BufferOutOfBounds,
             \<lparr>buffer = [], pending = [], ended = True, synchronous = True,
              highWaterMark = 16384\<rparr>)"
proof -
  let ?d = "(deliver ^^ 2) (source_of False [[1, 0], [0, 0]])"
  let ?p = "\<lparr>buffer = [1, 0], pending = [([0, 0, 9], False)], ended = False,
        synchronous = True, highWaterMark = 16384\<rparr>"
  let ?w = "\<lparr>buffer = [1, 0], pending = [([0, 0], False)], ended = False,
        synchronous = False, highWaterMark = 16384\<rparr>"
  let ?z = "\<lparr>buffer = [1], pending = [([0], True)], ended = False, synchronous = True,
        highWaterMark = 16384\<rparr>"
  have d: "?d = \<lparr>buffer = [1, 0, 0, 0], pending = [], ended = False, synchronous = False,
        highWaterMark = 16384\<rparr>"
    by (simp add: numeral_2_eq_2 source_of_def deliver_def)
  have cd: "consume 4 ?d = \<lparr>buffer = [], pending = [], ended = False, synchronous = False,
        highWaterMark = 16384\<rparr>"
    by (simp add: d consume_def read_def Let_def howMuchToRead_def deliver_def)
  have cp: "consume 4 ?p = \<lparr>buffer = [9], pending = [], ended = False, synchronous = True,
        highWaterMark = 16384\<rparr>"
    by (simp add: consume_def read_def Let_def howMuchToRead_def deliver_def)
  have cw: "consume 4 ?w = ?w"
    by (simp add: consume_def read_def Let_def howMuchToRead_def deliver_def)
  have cz: "consume 4 ?z = \<lparr>buffer = [], pending = [], ended = True, synchronous = True,
        highWaterMark = 16384\<rparr>"
    by (simp add: consume_def read_def Let_def howMuchToRead_def deliver_def)
  have "deserialUint32 ?d = Some (Inr 1, consume 4 ?d)"
    using primitive_reads_exact_or_fail [of ?d, THEN conjunct2, THEN conjunct2, THEN conjunct2,
        THEN conjunct1, rule_format, of 1 0 0 0 "[]"]
    by (simp add: d)
  moreover have "\<exists>s'. deserialUint32 ((deliver ^^ 3) (source_of False [[1], [0, 0], [0]]))
      = Some (Inr 1, s')"
    using primitive_reads_exact_or_fail [where cs = "[[1], [0, 0], [0]]" and sync = False,
        THEN conjunct2, THEN conjunct2, THEN conjunct2, THEN conjunct2, THEN conjunct2,
        THEN conjunct1, rule_format, of 1 0 0 0 "[]"]
    by (simp add: numeral_3_eq_3)
  moreover have "deserialUint32 ?p = Some (Inr 1, consume 4 ?p)"
    using primitive_reads_exact_or_fail [of ?p, THEN conjunct2, THEN conjunct2, THEN conjunct2,
        THEN conjunct2, THEN conjunct2, THEN conjunct2, THEN conjunct2, THEN conjunct1,
        rule_format, of "[0, 0, 9]" False "[]" 1 0 0 0 "[9]"]
    by simp
  moreover have "deserialUint32 ?w = Some (Inl NullDereference, consume 4 ?w)"
    using primitive_reads_exact_or_fail [of ?w, THEN conjunct2, THEN conjunct2, THEN conjunct2,
        THEN conjunct2, THEN conjunct2, THEN conjunct2, THEN conjunct2, THEN conjunct2,
        THEN conjunct2, THEN conjunct1]
    by simp
  moreover have "deserialUint32 ?z = Some (Inl BufferOutOfBounds, consume 4 ?z)"
    using primitive_reads_exact_or_fail [of ?z, THEN conjunct2, THEN conjunct2, THEN conjunct2,
        THEN conjunct2, THEN conjunct2, THEN conjunct2, THEN conjunct2, THEN conjunct2,
        THEN conjunct2, THEN conjunct2, rule_format, of "[0]" "[]"]
    by simp
  ultimately show ?thesis
    by (simp only: cd cp cw cz)
qed

text \<open>
  The claim as stated fails: a 4-byte payload delivered as 2 + 2 bytes fails to decode
  where the same payload delivered in one piece decodes to 1. This is so when the
  deliveries come from the event loop and the decoder runs after the first one (on the
  \<^verbatim>\<open>readable\<close> event), and also when the resource delivers inside \<^verbatim>\<open>_read\<close>, two
  bytes in each call.
\<close>

theorem deserialUint32_split_delivery_counterexample:
  "deserialUint32 (deliver (source_of False [[1, 0], [0, 0]]))
     = Some (Inl NullDereference,
             \<lparr>buffer = [1, 0], pending = [([0, 0], False)], ended = False,
              synchronous = False, highWaterMark = 16384\<rparr>)
   \<and> deserialUint32 (deliver (source_of False [[1, 0, 0, 0]]))
     = Some (Inr 1,
             \<lparr>buffer = [], pending = [], ended = False, synchronous = False,
              highWaterMark = 16384\<rparr>)
   \<and> deserialUint32 (source_of True [[1, 0], [0, 0]])
     = Some (Inl NullDereference,
             \<lparr>buffer = [1, 0], pending = [([0, 0], False)], ended = False,
              synchronous = True, highWaterMark = 16384\<rparr>)
   \<and> deserialUint32 (source_of True [[1, 0, 0, 0]])
     = Some (Inr 1,
             \<lparr>buffer = [], pending = [], ended = False, synchronous = True,
              highWaterMark = 16384\<rparr>)"
  by (simp add: live_eval)



text \<open>
  C3 (as amended). For every input whose first byte is a tag value outside the enumerated
  range 0--26 of \<open>TypeTag\<close>, \<open>deserialType\<close> fails with \<open>UnsupportedTypeTag\<close>
  carrying that tag value; the source is left as one \<open>read\<close> of one byte leaves it, so
  exactly one byte has been consumed when it fails, and no partial \<open>Type\<close> is returned.
  (Unless the resource pushes synchronously during the call, the source is the one the
  call found, less that byte.)
\<close>

theorem deserialType_unsupported_tag:
  assumes "buffer s = b # rest" and "26 < unat b"
  shows "deserialType s = Some (Inl (UnsupportedTypeTag (unat b)), consume 1 s)
       \<and> unread s = b # unread (consume 1 s)
       \<and> ((synchronous s \<and> \<not> ended s) \<or> consume 1 s = (raise_hwm 1 s)\<lparr>buffer := rest\<rparr>)"
proof (intro conjI)
  show "deserialType s = Some (Inl (UnsupportedTypeTag (unat b)), consume 1 s)"
    using assms(2)
    by (subst deserialType_unfold_tag [OF assms(1)]) (simp add: throwD_def Let_def)
  show "unread s = b # unread (consume 1 s)"
    by (rule unread_consume_Cons [OF assms(1)])
  show "(synchronous s \<and> \<not> ended s) \<or> consume 1 s = (raise_hwm 1 s)\<lparr>buffer := rest\<rparr>"
    using consume_Cons_quiet [OF assms(1)] by blast
qed

theorem deserialType_unsupported_tag_witness:
  "deserialType (closed_source [27, 5])
     = Some (Inl (UnsupportedTypeTag 27), closed_source [5])
   \<and> deserialType
       \<lparr>buffer = [255], pending = [([5], False)], ended = False, synchronous = True,
        highWaterMark = 16384\<rparr>
     = Some (Inl (UnsupportedTypeTag 255),
             \<lparr>buffer = [5], pending = [], ended = False, synchronous = True,
              highWaterMark = 16384\<rparr>)"
proof -
  let ?live = "\<lparr>buffer = [255], pending = [([5], False)], ended = False, synchronous = True,
        highWaterMark = 16384\<rparr>"
  have "consume 1 ?live = \<lparr>buffer = [5], pending = [], ended = False, synchronous = True,
        highWaterMark = 16384\<rparr>"
    by (simp add: consume_def read_def Let_def howMuchToRead_def deliver_def)
  with deserialType_unsupported_tag [of "closed_source [27, 5]" 27 "[5]"]
    deserialType_unsupported_tag [of ?live 255 "[]"]
  show ?thesis by simp
qed

text \<open>
  The claim as stated draws the line at 24: the tag 25 (\<open>ContractName\<close>) lies outside
  0--24 and is accepted, and a second byte is consumed as its \<open>sizeLength\<close>.
\<close>

theorem deserialType_tag_25_counterexample:
  "(25::nat) \<notin> {0..24}
   \<and> deserialType (closed_source [25, 2]) = Some (Inr (Type_Text 25 2), closed_source [])"
  by (subst deserialType_unfold_tag [where b = 25 and rest = "[2]"])
    (simp_all add: bindD_def deserialUint8_closed returnD_def Let_def)

text \<open>
  C4. \<open>deserialArrayFn d\<close> reads a 4-byte little-endian length \<open>len\<close> and then runs
  \<open>d\<close> exactly \<open>len\<close> times in order, each run starting where the previous one stopped
  (\<open>spec_invoke_times\<close>); when it succeeds the result is the list of the \<open>len\<close> values
  in that order. For \<open>len = 0\<close> it returns the empty list without running \<open>d\<close>.
\<close>

theorem deserialArrayFn_invokes_len_times:
  "deserialArrayFn d s = bindD deserialUint32 (spec_invoke_times d) s
   \<and> (\<forall>xs s'. deserialArrayFn d s = Some (Inr xs, s') \<longrightarrow>
         (\<exists>len s0. deserialUint32 s = Some (Inr len, s0)
            \<and> spec_invoke_times d len s0 = Some (Inr xs, s')
            \<and> length xs = len))
   \<and> (\<forall>s0. deserialUint32 s = Some (Inr 0, s0) \<longrightarrow>
         deserialArrayFn d s = Some (Inr [], s0))"
proof (intro conjI allI impI)
  show "deserialArrayFn d s = bindD deserialUint32 (spec_invoke_times d) s"
    by (simp add: deserialArrayFn_spec)
next
  fix xs s'
  assume "deserialArrayFn d s = Some (Inr xs, s')"
  then obtain len s0 where len: "deserialUint32 s = Some (Inr len, s0)"
    and run: "spec_invoke_times d len s0 = Some (Inr xs, s')"
    by (auto simp add: deserialArrayFn_spec bindD_eq_Inr)
  from run have "length xs = len" by (rule spec_invoke_times_length)
  with len run
  show "\<exists>len s0. deserialUint32 s = Some (Inr len, s0)
      \<and> spec_invoke_times d len s0 = Some (Inr xs, s') \<and> length xs = len"
    by blast
next
  fix s0
  assume "deserialUint32 s = Some (Inr 0, s0)"
  then show "deserialArrayFn d s = Some (Inr [], s0)"
    by (simp add: deserialArrayFn_spec bindD_def returnD_def)
qed

theorem deserialArrayFn_invokes_len_times_witness:
  "deserialArrayFn deserialUint8 (closed_source [2, 0, 0, 0, 7, 8, 9])
     = Some (Inr [7, 8], closed_source [9])
   \<and> deserialArrayFn deserialUint8 (closed_source [0, 0, 0, 0, 5])
     = Some (Inr [], closed_source [5])"
proof -
  let ?s = "closed_source [2, 0, 0, 0, 7, 8, 9]"
  let ?e = "closed_source [0, 0, 0, 0, 5]"
  have len: "deserialUint32 ?s = Some (Inr 2, closed_source [7, 8, 9])"
    by (simp add: deserialUint32_closed)
  have run: "spec_invoke_times deserialUint8 2 (closed_source [7, 8, 9])
      = Some (Inr [7, 8], closed_source [9])"
    by (simp add: spec_invoke_times_numeral bindD_def returnD_def deserialUint8_closed)
  have "deserialArrayFn deserialUint8 ?s
      = bindD deserialUint32 (spec_invoke_times deserialUint8) ?s"
    by (rule deserialArrayFn_invokes_len_times [of deserialUint8 ?s, THEN conjunct1])
  also have "\<dots> = Some (Inr [7, 8], closed_source [9])"
    by (simp add: bindD_def len run)
  finally have first: "deserialArrayFn deserialUint8 ?s = Some (Inr [7, 8], closed_source [9])" .
  have zero: "deserialUint32 ?e = Some (Inr 0, closed_source [5])"
    by (simp add: deserialUint32_closed)
  have "deserialArrayFn deserialUint8 ?e = Some (Inr [], closed_source [5])"
    by (rule deserialArrayFn_invokes_len_times
        [of deserialUint8 ?e, THEN conjunct2, THEN conjunct2, rule_format, OF zero])
  with first show ?thesis by (intro conjI)
qed

text \<open>
  C5. Last-write-wins holds for every key but one (\<open>deserialMapFn_last_write_wins\<close>
  above): the assignment \<open>obj[k] = v\<close> with \<open>k = "__proto__"\<close> creates no entry. A
  mapping whose two entries both carry the key \<open>__proto__\<close> decodes successfully to the
  empty mapping, not to one that holds the value of the last occurrence.
\<close>

theorem deserialMapFn_proto_key_evaluation:
  "spec_invoke_times (deserialTupleFn deserialString deserialType) 2
     (closed_source [9, 0, 0, 0, 95, 95, 112, 114, 111, 116, 111, 95, 95, 2,
                     9, 0, 0, 0, 95, 95, 112, 114, 111, 116, 111, 95, 95, 1])
     = Some (Inr [(proto_key, Type_Scalar 2), (proto_key, Type_Scalar 1)], closed_source [])
   \<and> deserialMapFn deserialString deserialType
     (closed_source [2, 0, 0, 0,
                     9, 0, 0, 0, 95, 95, 112, 114, 111, 116, 111, 95, 95, 2,
                     9, 0, 0, 0, 95, 95, 112, 114, 111, 116, 111, 95, 95, 1])
     = Some (Inr Map.empty, closed_source [])"
proof -
  let ?sa = "closed_source [9, 0, 0, 0, 95, 95, 112, 114, 111, 116, 111, 95, 95, 2,
                 9, 0, 0, 0, 95, 95, 112, 114, 111, 116, 111, 95, 95, 1]"
  let ?sb = "closed_source [2, 9, 0, 0, 0, 95, 95, 112, 114, 111, 116, 111, 95, 95, 1]"
  let ?sc = "closed_source [9, 0, 0, 0, 95, 95, 112, 114, 111, 116, 111, 95, 95, 1]"
  let ?sd = "closed_source [1]"
  let ?se = "closed_source []"
  have k1: "deserialString ?sa = Some (Inr proto_key, ?sb)"
    by (simp add: eval_simps Uint8Array_from_def TextDecoder_decode_proto)
  have v1: "deserialType ?sb = Some (Inr (Type_Scalar 2), ?sc)"
    using deserialType_scalar_closed [of 2] by simp
  have k2: "deserialString ?sc = Some (Inr proto_key, ?sd)"
    by (simp add: eval_simps Uint8Array_from_def TextDecoder_decode_proto)
  have v2: "deserialType ?sd = Some (Inr (Type_Scalar 1), ?se)"
    using deserialType_scalar_closed [of 1 "[]"] by simp
  have run: "spec_invoke_times (deserialTupleFn deserialString deserialType) 2 ?sa
      = Some (Inr [(proto_key, Type_Scalar 2), (proto_key, Type_Scalar 1)], ?se)"
    by (simp add: spec_invoke_times_numeral deserialTupleFn_def bindD_def returnD_def k1 v1 k2 v2)
  have "deserialMapFn deserialString deserialType
     (closed_source [2, 0, 0, 0,
                     9, 0, 0, 0, 95, 95, 112, 114, 111, 116, 111, 95, 95, 2,
                     9, 0, 0, 0, 95, 95, 112, 114, 111, 116, 111, 95, 95, 1])
     = Some (Inr Map.empty, ?se)"
    by (simp add: deserialMapFn_spec bindD_def deserialUint32_closed run returnD_def assign_def)
  with run show ?thesis by simp
qed

text \<open>
  C6. \<open>deserialOptionFn d\<close> reads one tag byte. On 0 it returns the absent value and
  reads nothing further; on 1 it runs \<open>d\<close> on the source right after the tag and returns
  its result as the present value (a failure or non-return of \<open>d\<close> is passed on); on any
  other byte it fails with \<open>UnsupportedOptionTag\<close> carrying that byte. The source after
  the tag is the source as one \<open>read\<close> of one byte leaves it.
\<close>

theorem deserialOptionFn_tag_dispatch:
  assumes "buffer s = b # rest"
  shows "(b = 0 \<longrightarrow> deserialOptionFn d s = Some (Inr None, consume 1 s))
       \<and> (b = 1 \<longrightarrow>
            deserialOptionFn d s =
              (case d (consume 1 s) of
                 None \<Rightarrow> None
               | Some (Inl e, s') \<Rightarrow> Some (Inl e, s')
               | Some (Inr x, s') \<Rightarrow> Some (Inr (Some x), s')))
       \<and> (b \<noteq> 0 \<and> b \<noteq> 1 \<longrightarrow>
            deserialOptionFn d s =
              Some (Inl (UnsupportedOptionTag (unat b)), consume 1 s))
       \<and> unread s = b # unread (consume 1 s)
       \<and> ((synchronous s \<and> \<not> ended s) \<or> consume 1 s = (raise_hwm 1 s)\<lparr>buffer := rest\<rparr>)"
proof (intro conjI impI)
  assume "b = 0"
  with assms show "deserialOptionFn d s = Some (Inr None, consume 1 s)"
    by (simp add: deserialOptionFn_def bindD_deserialUint8 returnD_def)
next
  assume "b = 1"
  with assms show "deserialOptionFn d s =
      (case d (consume 1 s) of
         None \<Rightarrow> None
       | Some (Inl e, s') \<Rightarrow> Some (Inl e, s')
       | Some (Inr x, s') \<Rightarrow> Some (Inr (Some x), s'))"
    by (simp add: deserialOptionFn_def bindD_deserialUint8)
      (simp add: bindD_def returnD_def split: option.splits sum.splits)
next
  assume "b \<noteq> 0 \<and> b \<noteq> 1"
  then have "unat b \<noteq> 0" and "unat b \<noteq> 1"
    by (simp_all add: word_unat_eq_iff)
  with assms show "deserialOptionFn d s =
      Some (Inl (UnsupportedOptionTag (unat b)), consume 1 s)"
    by (simp add: deserialOptionFn_def bindD_deserialUint8 throwD_def)
next
  show "unread s = b # unread (consume 1 s)"
    by (rule unread_consume_Cons [OF assms])
  show "(synchronous s \<and> \<not> ended s) \<or> consume 1 s = (raise_hwm 1 s)\<lparr>buffer := rest\<rparr>"
    using consume_Cons_quiet [OF assms] by blast
qed

theorem deserialOptionFn_tag_dispatch_witness:
  "deserialOptionFn deserialUint8 (closed_source [0, 7]) = Some (Inr None, closed_source [7])
   \<and> deserialOptionFn deserialUint8 (closed_source [1, 7])
       = Some (Inr (Some 7), closed_source [])
   \<and> deserialOptionFn deserialUint8 (closed_source [2, 7])
       = Some (Inl (UnsupportedOptionTag 2), closed_source [7])"
  using deserialOptionFn_tag_dispatch [of "closed_source [0, 7]" 0 "[7]" deserialUint8]
    deserialOptionFn_tag_dispatch [of "closed_source [1, 7]" 1 "[7]" deserialUint8]
    deserialOptionFn_tag_dispatch [of "closed_source [2, 7]" 2 "[7]" deserialUint8]
  by (simp add: deserialUint8_closed)

text \<open>
  C7. \<open>deserialContract\<close> decodes \<open>state\<close>, then \<open>init\<close>, then \<open>receive\<close>: it succeeds
  exactly when the three decoders succeed one after the other, each on the source the
  previous one left. The bytes of one contract named \<open>a\<close> with no state, no init and no
  receive functions decode to the module with that single contract; and a contract whose
  bytes hold one present optional type followed by an absent one has the type as its
  \<open>state\<close>, not as its \<open>init\<close>.
\<close>

theorem deserialContract_field_order:
  "(deserialContract s = Some (Inr c, s3) \<longleftrightarrow>
      (\<exists>s1 s2.
         deserialOptionFn deserialType s = Some (Inr (state c), s1)
         \<and> deserialOptionFn deserialType s1 = Some (Inr (init c), s2)
         \<and> deserialMapFn deserialString deserialType s2 = Some (Inr (receive c), s3)))
   \<and> deserialModule
        (closed_source [1, 0, 0, 0, 1, 0, 0, 0, 0x61, 0, 0, 0, 0, 0, 0])
      = Some (Inr [[97] \<mapsto> \<lparr>state = None, init = None, receive = Map.empty\<rparr>],
              closed_source [])
   \<and> deserialContract
        (closed_source [1, 2, 0, 0, 0, 0, 0])
      = Some (Inr \<lparr>state = Some (Type_Scalar 2), init = None, receive = Map.empty\<rparr>,
              closed_source [])"
proof (intro conjI)
  show "deserialContract s = Some (Inr c, s3) \<longleftrightarrow>
      (\<exists>s1 s2.
         deserialOptionFn deserialType s = Some (Inr (state c), s1)
         \<and> deserialOptionFn deserialType s1 = Some (Inr (init c), s2)
         \<and> deserialMapFn deserialString deserialType s2 = Some (Inr (receive c), s3))"
    by (cases c) (auto simp add: deserialContract_def bindD_eq_Inr returnD_def)
next
  show "deserialModule
        (closed_source [1, 0, 0, 0, 1, 0, 0, 0, 0x61, 0, 0, 0, 0, 0, 0])
      = Some (Inr [[97] \<mapsto> \<lparr>state = None, init = None, receive = Map.empty\<rparr>],
              closed_source [])"
    by (simp add: deserialModule_def deserialContract_def eval_simps Uint8Array_from_def
        TextDecoder_decode_a assign_def proto_key_def)
next
  have "deserialType (closed_source [2, 0, 0, 0, 0, 0])
      = Some (Inr (Type_Scalar 2), closed_source [0, 0, 0, 0, 0])"
    using deserialType_scalar_closed [of 2] by simp
  then show "deserialContract
        (closed_source [1, 2, 0, 0, 0, 0, 0])
      = Some (Inr \<lparr>state = Some (Type_Scalar 2), init = None, receive = Map.empty\<rparr>,
              closed_source [])"
    by (simp add: deserialContract_def eval_simps)
qed

text \<open>
  C8. For each of the tags \<open>String\<close>, \<open>ContractName\<close> and \<open>ReceiveName\<close>,
  \<open>deserialType\<close> reads exactly one following byte as the \<open>sizeLength\<close> and succeeds for
  every value of that byte; the byte is stored as read and is not compared with the
  width \<open>SizeLength.U32\<close> that the type declaration names. Exactly the two bytes have
  been consumed.
\<close>

theorem deserialType_text_sizeLength_unchecked:
  assumes "buffer s = t # b # rest"
    and "unat t = TypeTag_String \<or> unat t = TypeTag_ContractName \<or> unat t = TypeTag_ReceiveName"
  shows "deserialType s = Some (Inr (Type_Text (unat t) (unat b)), consume 1 (consume 1 s))
       \<and> unread s = t # b # unread (consume 1 (consume 1 s))
       \<and> ((synchronous s \<and> \<not> ended s)
            \<or> consume 1 (consume 1 s) = (raise_hwm 1 s)\<lparr>buffer := rest\<rparr>)"
proof (intro conjI)
  from assms(1) obtain extra where next_byte: "buffer (consume 1 s) = b # (rest @ extra)"
    using buffer_consume_Cons [of s t "b # rest"] by auto
  show "deserialType s = Some (Inr (Type_Text (unat t) (unat b)), consume 1 (consume 1 s))"
    using assms(2) deserialUint8_Cons [OF next_byte]
    by (subst deserialType_unfold_tag [OF assms(1)])
      (auto simp add: bindD_def returnD_def Let_def)
  show "unread s = t # b # unread (consume 1 (consume 1 s))"
    by (rule unread_consume_Cons_Cons [OF assms(1)])
  show "(synchronous s \<and> \<not> ended s)
      \<or> consume 1 (consume 1 s) = (raise_hwm 1 s)\<lparr>buffer := rest\<rparr>"
    using consume_Cons_Cons_quiet [OF assms(1)] by blast
qed

theorem deserialType_text_sizeLength_unchecked_witness:
  "deserialType (closed_source [22, 200, 9]) = Some (Inr (Type_Text 22 200), closed_source [9])
   \<and> deserialType (closed_source [25, 0]) = Some (Inr (Type_Text 25 0), closed_source [])
   \<and> deserialType (closed_source [26, 255]) = Some (Inr (Type_Text 26 255), closed_source [])"
  using deserialType_text_sizeLength_unchecked [of "closed_source [22, 200, 9]" 22 200 "[9]"]
    deserialType_text_sizeLength_unchecked [of "closed_source [25, 0]" 25 0 "[]"]
    deserialType_text_sizeLength_unchecked [of "closed_source [26, 255]" 26 255 "[]"]
  by simp

text \<open>
  C9. \<open>deserialType\<close> returns on every source: it yields a result (a \<open>Type\<close> or a
  failure) and never runs forever, it never leaves more of the stream unread than it
  found, and whenever it returns a \<open>Type\<close> it has consumed at least one byte (the tag),
  so every nested invocation starts on a strictly shorter input. When the resource does
  not push synchronously nothing is delivered during the call, and the same holds of the
  buffer alone.
\<close>

theorem deserialType_terminates:
  "\<exists>r s'. deserialType s = Some (r, s')
     \<and> length (unread s') \<le> length (unread s)
     \<and> (case r of Inl e \<Rightarrow> True | Inr t \<Rightarrow> length (unread s') < length (unread s))
     \<and> (synchronous s
         \<or> (pending s' = pending s \<and> length (buffer s') \<le> length (buffer s)
             \<and> (case r of Inl e \<Rightarrow> True | Inr t \<Rightarrow> length (buffer s') < length (buffer s))))"
proof -
  from returns_uptoD [OF returns_upto_deserialType, of s "length (unread s)"]
  obtain r s' where r: "deserialType s = Some (r, s')"
    and le: "length (unread s') \<le> length (unread s)"
    and p: "synchronous s \<or> pending s' = pending s" by auto
  have strict: "length (unread s') < length (unread s)" if "r = Inr t" for t
    using r that by (intro deserialType_consumes [of s t s']) simp
  show ?thesis
  proof (cases r)
    case (Inl e)
    with r le p show ?thesis by (auto simp add: unread_def)
  next
    case (Inr t)
    with r strict [OF Inr] p show ?thesis by (auto simp add: unread_def)
  qed
qed

text \<open>
  C10. For the tags \<open>List\<close> and \<open>Set\<close>, and for \<open>Map\<close>, \<open>deserialType\<close> reads the
  byte after the tag as the \<open>sizeLength\<close> and stores it unchecked: whatever the value of
  that byte (0--255, so also outside the range 0--3 of \<open>SizeLength\<close>), the outcome is that
  of decoding the nested type(s) from the bytes that follow, and on success the resulting
  \<open>Type\<close> carries the raw byte as its \<open>sizeLength\<close>.
\<close>

theorem deserialType_collection_sizeLength_unchecked:
  assumes "buffer s = t # b # rest"
  shows "(unat t = TypeTag_List \<or> unat t = TypeTag_Set \<longrightarrow>
            deserialType s =
              (case deserialType (consume 1 (consume 1 s)) of
                 None \<Rightarrow> None
               | Some (Inl e, s') \<Rightarrow> Some (Inl e, s')
               | Some (Inr elem, s') \<Rightarrow>
                   Some (Inr (Type_Collection (unat t) (unat b) elem), s')))
       \<and> (unat t = TypeTag_Map \<longrightarrow>
            (\<forall>keys s1 vals s2.
               deserialType (consume 1 (consume 1 s)) = Some (Inr keys, s1) \<longrightarrow>
               deserialType s1 = Some (Inr vals, s2) \<longrightarrow>
               deserialType s =
                 Some (Inr (Type_Map (unat t) (unat b) keys vals), s2)))
       \<and> unread s = t # b # unread (consume 1 (consume 1 s))
       \<and> ((synchronous s \<and> \<not> ended s)
            \<or> consume 1 (consume 1 s) = (raise_hwm 1 s)\<lparr>buffer := rest\<rparr>)"
proof (intro conjI impI allI)
  from assms obtain extra where next_byte: "buffer (consume 1 s) = b # (rest @ extra)"
    using buffer_consume_Cons [of s t "b # rest"] by auto
  {
    assume "unat t = TypeTag_List \<or> unat t = TypeTag_Set"
    then show "deserialType s =
        (case deserialType (consume 1 (consume 1 s)) of
           None \<Rightarrow> None
         | Some (Inl e, s') \<Rightarrow> Some (Inl e, s')
         | Some (Inr elem, s') \<Rightarrow>
             Some (Inr (Type_Collection (unat t) (unat b) elem), s'))"
      using deserialUint8_Cons [OF next_byte]
      by (subst deserialType_unfold_tag [OF assms])
        (auto simp add: Let_def bindD_def returnD_def split: option.splits sum.splits)
  next
    fix keys s1 vals s2
    assume "unat t = TypeTag_Map"
      and "deserialType (consume 1 (consume 1 s)) = Some (Inr keys, s1)"
      and "deserialType s1 = Some (Inr vals, s2)"
    then show "deserialType s = Some (Inr (Type_Map (unat t) (unat b) keys vals), s2)"
      using deserialUint8_Cons [OF next_byte]
      by (subst deserialType_unfold_tag [OF assms])
        (simp add: Let_def bindD_def returnD_def)
  }
  show "unread s = t # b # unread (consume 1 (consume 1 s))"
    by (rule unread_consume_Cons_Cons [OF assms])
  show "(synchronous s \<and> \<not> ended s)
      \<or> consume 1 (consume 1 s) = (raise_hwm 1 s)\<lparr>buffer := rest\<rparr>"
    using consume_Cons_Cons_quiet [OF assms] by blast
qed

theorem deserialType_collection_sizeLength_unchecked_witness:
  "deserialType (closed_source [16, 255, 2])
     = Some (Inr (Type_Collection 16 255 (Type_Scalar 2)), closed_source [])
   \<and> deserialType (closed_source [18, 4, 2, 1])
     = Some (Inr (Type_Map 18 4 (Type_Scalar 2) (Type_Scalar 1)), closed_source [])"
  using deserialType_collection_sizeLength_unchecked [of "closed_source [16, 255, 2]" 16 255 "[2]"]
    deserialType_collection_sizeLength_unchecked [of "closed_source [18, 4, 2, 1]" 18 4 "[2, 1]"]
    deserialType_scalar_closed [of 2 "[]"]
    deserialType_scalar_closed [of 2 "[1]"]
    deserialType_scalar_closed [of 1 "[]"]
  by simp

end
